theory Spec2Isabelle
  imports Complex_Main "HOL-Library.AList" "HOL-Library.Multiset"
begin

section \<open>Rules (rule.ts, class Rule)\<close>

text \<open>
  Exceptions of the source are values.  \<open>UnsupportedGeometryType\<close> is
  \<^verbatim>\<open>throw new Error("Unsupported geometry type")\<close> (getLayerPolygon),
  \<open>LayerNotFound\<close> is \<^verbatim>\<open>throw new Error("Layer not found")\<close> (getAreaFromCache),
  \<open>TypeError\<close> is what JavaScript raises when a property of \<^verbatim>\<open>undefined\<close> is read
  or \<^verbatim>\<open>undefined\<close> is iterated.
\<close>

datatype error = UnsupportedGeometryType | LayerNotFound | TypeError

text \<open>
  The value a rule callback returns:
  \<^verbatim>\<open>{ triggered: boolean, shortMessage?: string, message?: string }\<close>.
  An optional field that is absent (or \<^verbatim>\<open>undefined\<close>) is \<open>None\<close>.
\<close>

record result =
  triggered :: bool
  shortMessage :: "string option"
  message :: "string option"

text \<open>
  A rule object.  The callback may read and write module-level state (the
  cluster rule does), so it takes the state \<open>'s\<close> and returns the state it
  leaves behind together with either its result or the exception it raised.
\<close>

record ('e, 's) Rule =
  r_severity :: nat
  r_triggered :: bool
  r_callback :: "'e \<Rightarrow> 's \<Rightarrow> (error + result) \<times> 's"
  r_message :: string
  r_shortMessage :: string

definition newRule ::
  "nat \<Rightarrow> string \<Rightarrow> string \<Rightarrow> ('e \<Rightarrow> 's \<Rightarrow> (error + result) \<times> 's) \<Rightarrow> ('e, 's) Rule" where
  "newRule sev shortMsg msg callback =
     \<lparr>r_severity = sev, r_triggered = False, r_callback = callback,
      r_message = msg, r_shortMessage = shortMsg\<rparr>"

definition severity :: "('e, 's) Rule \<Rightarrow> nat" where
  "severity r = (if r_triggered r then r_severity r else 0)"

text \<open>
  JavaScript truthiness of an optional string: \<^verbatim>\<open>undefined\<close> and the empty
  string are falsy, every other string is truthy.
\<close>

fun truthy :: "string option \<Rightarrow> bool" where
  "truthy None = False"
| "truthy (Some s) = (s \<noteq> [])"

text \<open>
  \<^verbatim>\<open>
  public checkRule(entity: MapEntity) {
      const result = this._callback(entity);
      this._triggered = result.triggered;
      if (result.shortMessage) this.shortMessage = result.shortMessage;
      if (result.message) this.message = result.message;
  }
  \<close>
  When the callback raises, no assignment has happened: the exception is
  returned and the rule object is the one passed in.
\<close>

definition checkRule ::
  "('e, 's) Rule \<Rightarrow> 'e \<Rightarrow> 's \<Rightarrow> (error + ('e, 's) Rule) \<times> 's" where
  "checkRule r entity s =
     (case r_callback r entity s of
        (Inl err, s') \<Rightarrow> (Inl err, s')
      | (Inr res, s') \<Rightarrow>
          (let r1 = r\<lparr>r_triggered := triggered res\<rparr>;
               r2 = (if truthy (shortMessage res)
                     then r1\<lparr>r_shortMessage := the (shortMessage res)\<rparr> else r1);
               r3 = (if truthy (message res)
                     then r2\<lparr>r_message := the (message res)\<rparr> else r2)
           in (Inr r3, s')))"

section \<open>Geometry values, layers and the geometry library\<close>

text \<open>
  A JavaScript number is modelled by the real number it stands for.
  Comparison of numbers is exact.  Addition is not: \<^verbatim>\<open>a + b\<close> is the sum rounded
  to a number again, so it depends on the order in which numbers are added.
  The rules therefore take the addition as a parameter (\<open>js_plus\<close> below), and
  nothing is assumed of it.  \<open>js_add\<close> is the addition of IEEE 754 binary64,
  round to nearest, ties to even, for finite results (infinities and NaN are
  not modelled); with \<open>(+)\<close> in its place the arithmetic is exact.
\<close>

function bit_length :: "int \<Rightarrow> int" where
  "bit_length n = (if n \<le> 0 then 0 else bit_length (n div 2) + 1)"
  by pat_completeness auto
termination
  by (relation "measure nat") auto

definition pow2 :: "int \<Rightarrow> real" where
  "pow2 k = (if 0 \<le> k then 2 ^ nat k else 1 / 2 ^ nat (- k))"

definition round_half_even :: "real \<Rightarrow> int" where
  "round_half_even q =
     (let f = \<lfloor>q\<rfloor>; r = q - of_int f
      in if r < 1 / 2 then f else if 1 / 2 < r then f + 1 else if even f then f else f + 1)"

text \<open>
  The exponent \<open>e\<close> of the binade of \<open>x\<close>, \<open>2^e \<le> |x| < 2^(e+1)\<close>, not below the
  least exponent of a normal number; and \<open>x\<close> rounded to 53 significant bits.
\<close>

definition binade :: "real \<Rightarrow> int" where
  "binade x =
     max (- 1022)
       (if 1 \<le> \<bar>x\<bar> then bit_length \<lfloor>\<bar>x\<bar>\<rfloor> - 1
        else bit_length \<lfloor>\<bar>x\<bar> * 2 ^ 1074\<rfloor> - 1 - 1074)"

definition fl64 :: "real \<Rightarrow> real" where
  "fl64 x = (let u = pow2 (binade x - 52) in of_int (round_half_even (x / u)) * u)"

definition js_add :: "real \<Rightarrow> real \<Rightarrow> real" where
  "js_add x y = fl64 (x + y)"

definition MAX_CLUSTER_SIZE :: real where
  "MAX_CLUSTER_SIZE = 1250"

definition FIRE_BUFFER_IN_METER :: real where
  "FIRE_BUFFER_IN_METER = 5"

text \<open>
  What \<^verbatim>\<open>layer.toGeoJSON()\<close> returns, by its \<^verbatim>\<open>type\<close> tag: a \<^verbatim>\<open>Feature\<close> with its
  geometry, a \<^verbatim>\<open>FeatureCollection\<close> with its member features, or anything else.
  The geometry library takes a feature and a bare geometry alike, so both are
  values of the one type \<open>'f\<close>.
\<close>

datatype 'f geojson = Feature 'f | FeatureCollection "'f list" | OtherGeoJSON

text \<open>A Leaflet layer: its \<^verbatim>\<open>_leaflet_id\<close> and the value of \<^verbatim>\<open>toGeoJSON()\<close>.\<close>

record 'f Layer =
  leaflet_id :: nat
  toGeoJSON :: "'f geojson"

record 'f MapEntity =
  entity_layer :: "'f Layer"

text \<open>
  A Leaflet layer group, in the order \<^verbatim>\<open>eachLayer\<close> visits it; \<^verbatim>\<open>getLayer(id)\<close>
  looks a layer up by its id and yields \<^verbatim>\<open>undefined\<close> (\<open>None\<close>) when there is none.
\<close>

type_synonym 'f LayerGroup = "'f Layer list"

definition getLayer :: "'f LayerGroup \<Rightarrow> nat \<Rightarrow> 'f Layer option" where
  "getLayer layerGroup layerID = find (\<lambda>l. leaflet_id l = layerID) layerGroup"

text \<open>
  What the rules take from outside the repository.  The geometry library
  (Turf) is not part of it; the functions the cluster rules call are
  parameters.  \<open>turf_buffer T g d\<close> stands for
  \<^verbatim>\<open>Turf.buffer(g, d, { units: 'meters' }).features[0]\<close>, the only way the
  buffer is used.  The second argument of \<open>turf_booleanOverlap\<close> is \<open>None\<close>
  when the code passes \<^verbatim>\<open>undefined\<close>.  \<open>js_plus T a b\<close> is \<^verbatim>\<open>a + b\<close> on numbers,
  as the runtime computes it.
\<close>

record ('f, 'b) Turf =
  turf_area :: "'f geojson \<Rightarrow> real"
  turf_buffer :: "'f geojson \<Rightarrow> real \<Rightarrow> 'b"
  turf_booleanOverlap :: "'b \<Rightarrow> 'f option \<Rightarrow> bool"
  js_plus :: "real \<Rightarrow> real \<Rightarrow> real"

definition compareLayers :: "'f Layer \<Rightarrow> 'f Layer \<Rightarrow> bool" where
  "compareLayers layer1 layer2 = (leaflet_id layer1 = leaflet_id layer2)"

text \<open>
  \<^verbatim>\<open>
  if (layerGeoJSON.type === 'Feature') { layerPolygon = layerGeoJSON.geometry; }
  else if (layerGeoJSON.type === 'FeatureCollection') { layerPolygon = layerGeoJSON.features[0]; }
  else { throw new Error("Unsupported geometry type"); }
  \<close>
  \<^verbatim>\<open>features[0]\<close> of an empty array is \<^verbatim>\<open>undefined\<close>.
\<close>

definition getLayerPolygon :: "'f Layer \<Rightarrow> error + 'f option" where
  "getLayerPolygon l =
     (case toGeoJSON l of
        Feature geometry \<Rightarrow> Inr (Some geometry)
      | FeatureCollection features \<Rightarrow> Inr (case features of [] \<Rightarrow> None | f # _ \<Rightarrow> Some f)
      | OtherGeoJSON \<Rightarrow> Inl UnsupportedGeometryType)"

section \<open>Sets of ids, the overlap graph and the area cache\<close>

text \<open>
  A JavaScript \<^verbatim>\<open>Set<number>\<close> is the list of its elements in insertion order
  (the order in which \<^verbatim>\<open>for ... of\<close> visits them); \<^verbatim>\<open>has\<close> is membership.
\<close>

definition set_add :: "nat \<Rightarrow> nat list \<Rightarrow> nat list" where
  "set_add x s = (if x \<in> set s then s else s @ [x])"

definition set_delete :: "nat \<Rightarrow> nat list \<Rightarrow> nat list" where
  "set_delete x s = removeAll x s"

text \<open>
  \<^verbatim>\<open>layersGraph\<close> is an object from ids to sets of ids: an association list,
  read with \<open>map_of\<close>, written with \<open>AList.update\<close>, \<^verbatim>\<open>delete layersGraph[id]\<close>
  is \<open>AList.delete\<close>.  \<^verbatim>\<open>Object.keys\<close> lists integer keys in ascending order.
  \<^verbatim>\<open>areaCache\<close> is an object from ids to numbers.
\<close>

type_synonym graph = "(nat \<times> nat list) list"

type_synonym cache = "nat \<rightharpoonup> real"

definition Object_keys :: "graph \<Rightarrow> nat list" where
  "Object_keys g = sort (remdups (map fst g))"

text \<open>The module-level variables of rule.ts.\<close>

record state =
  layersGraph :: graph
  areaCache :: cache
  hasRunOnce :: bool
  pik :: nat

definition initial_state :: state where
  "initial_state = \<lparr>layersGraph = [], areaCache = Map.empty, hasRunOnce = False, pik = 0\<rparr>"

text \<open>
  \<^verbatim>\<open>
  const getOverlappingLayerIds = (layer, layerGroup) => {
      const overlappingLayersIDs = new Set<number>();
      let buffer = Turf.buffer(layer.toGeoJSON(), FIRE_BUFFER_IN_METER, { units: 'meters' });
      layerGroup.eachLayer((otherLayer) => {
          if (!_compareLayers(layer, otherLayer)) {
              const otherLayerPolygon = getLayerPolygon(otherLayer)
              if (Turf.booleanOverlap(buffer.features[0], otherLayerPolygon)) {
                  overlappingLayersIDs.add(otherLayer._leaflet_id)
              }
          }
      });
      return overlappingLayersIDs;
  }
  \<close>
  An exception raised in the callback of \<^verbatim>\<open>eachLayer\<close> ends the loop and the call.
\<close>

fun getOverlappingLayerIds_eachLayer ::
  "('f, 'b) Turf \<Rightarrow> 'f Layer \<Rightarrow> 'b \<Rightarrow> 'f Layer list \<Rightarrow> nat list \<Rightarrow> error + nat list" where
  "getOverlappingLayerIds_eachLayer T l buf [] overlappingLayersIDs = Inr overlappingLayersIDs"
| "getOverlappingLayerIds_eachLayer T l buf (otherLayer # rest) overlappingLayersIDs =
     (if \<not> compareLayers l otherLayer then
        (case getLayerPolygon otherLayer of
           Inl e \<Rightarrow> Inl e
         | Inr otherLayerPolygon \<Rightarrow>
             (if turf_booleanOverlap T buf otherLayerPolygon
              then getOverlappingLayerIds_eachLayer T l buf rest
                     (set_add (leaflet_id otherLayer) overlappingLayersIDs)
              else getOverlappingLayerIds_eachLayer T l buf rest overlappingLayersIDs))
      else getOverlappingLayerIds_eachLayer T l buf rest overlappingLayersIDs)"

definition getOverlappingLayerIds ::
  "('f, 'b) Turf \<Rightarrow> 'f Layer \<Rightarrow> 'f LayerGroup \<Rightarrow> error + nat list" where
  "getOverlappingLayerIds T l layerGroup =
     getOverlappingLayerIds_eachLayer T l
       (turf_buffer T (toGeoJSON l) FIRE_BUFFER_IN_METER) layerGroup []"

text \<open>
  \<^verbatim>\<open>
  const deleteLayerFromCache = (layerID) => {
      delete areaCache[layerID]
      delete layersGraph[layerID]
      for (let id of Object.keys(layersGraph)) { layersGraph[id].delete(layerID) }
  }
  \<close>
  The loop deletes \<open>layerID\<close> from the set stored under every remaining key.
\<close>

definition deleteLayerFromCache :: "nat \<Rightarrow> state \<Rightarrow> state" where
  "deleteLayerFromCache layerID st =
     st\<lparr>areaCache := (areaCache st)(layerID := None),
        layersGraph := map (\<lambda>(id, s). (id, set_delete layerID s))
                         (AList.delete layerID (layersGraph st))\<rparr>"

text \<open>
  \<^verbatim>\<open>
  const deleteFromAreaCache = (layerGroup) => {
      for (let layerID of Object.keys(layersGraph)) {
          if (!layerGroup.getLayer(layerID)) { deleteLayerFromCache(Number(layerID)); }
      }
  }
  \<close>
  The keys are listed once, before the loop.
\<close>

definition deleteFromAreaCache :: "'f LayerGroup \<Rightarrow> state \<Rightarrow> state" where
  "deleteFromAreaCache layerGroup st =
     fold (\<lambda>layerID st'. if getLayer layerGroup layerID = None
                          then deleteLayerFromCache layerID st' else st')
       (Object_keys (layersGraph st)) st"

text \<open>
  \<^verbatim>\<open>layersGraph[k].op(x)\<close>: a method call on the set stored under \<open>k\<close>, which
  raises a TypeError when there is no such entry.
\<close>

definition on_set :: "nat \<Rightarrow> (nat list \<Rightarrow> nat list) \<Rightarrow> graph \<Rightarrow> error + graph" where
  "on_set k f g =
     (case map_of g k of None \<Rightarrow> Inl TypeError | Some s \<Rightarrow> Inr (AList.update k (f s) g))"

text \<open>
  The two loops of updateLayerGraph.  Each returns the graph it has reached,
  and the exception if one ended it.
  \<^verbatim>\<open>
  for (let id of idsToDelete) {
      layersGraph[id].delete(layerID)
      layersGraph[layerID].delete(Number(id))
  }
  for (let id of idsToCreate) {
      if (!(id in layersGraph)) { layersGraph[id] = new Set<number>(); }
      layersGraph[id].add(layerID)
      layersGraph[layerID].add(Number(id))
  }
  \<close>
\<close>

fun forIdsToDelete :: "nat \<Rightarrow> nat list \<Rightarrow> graph \<Rightarrow> error option \<times> graph" where
  "forIdsToDelete layerID [] g = (None, g)"
| "forIdsToDelete layerID (id' # ids) g =
     (case on_set id' (set_delete layerID) g of
        Inl e \<Rightarrow> (Some e, g)
      | Inr g1 \<Rightarrow>
          (case on_set layerID (set_delete id') g1 of
             Inl e \<Rightarrow> (Some e, g1)
           | Inr g2 \<Rightarrow> forIdsToDelete layerID ids g2))"

fun forIdsToCreate :: "nat \<Rightarrow> nat list \<Rightarrow> graph \<Rightarrow> error option \<times> graph" where
  "forIdsToCreate layerID [] g = (None, g)"
| "forIdsToCreate layerID (id' # ids) g =
     (let g0 = (if map_of g id' = None then AList.update id' [] g else g) in
      case on_set id' (set_add layerID) g0 of
        Inl e \<Rightarrow> (Some e, g0)
      | Inr g1 \<Rightarrow>
          (case on_set layerID (set_add id') g1 of
             Inl e \<Rightarrow> (Some e, g1)
           | Inr g2 \<Rightarrow> forIdsToCreate layerID ids g2))"

text \<open>
  \<^verbatim>\<open>
  const updateLayerGraph = (layerID, connLayersIDs, del) => {
      if (!(layerID in layersGraph)) { layersGraph[layerID] = new Set<number>(); }
      let prevConnLayersIDs = layersGraph[layerID];
      const idsToDelete = new Set<number>();
      const idsToCreate = new Set<number>();
      for (let id of prevConnLayersIDs) { if (!(connLayersIDs.has(id))) { idsToDelete.add(id) } }
      for (let id of connLayersIDs) { if (!(prevConnLayersIDs.has(id))) { idsToCreate.add(id) } }
      if (del) { for (let id of idsToDelete) { ... } }
      for (let id of idsToCreate) { ... }
  }
  \<close>
\<close>

definition updateLayerGraph :: "nat \<Rightarrow> nat list \<Rightarrow> bool \<Rightarrow> graph \<Rightarrow> error option \<times> graph" where
  "updateLayerGraph layerID connLayersIDs del g =
     (let g0 = (if map_of g layerID = None then AList.update layerID [] g else g);
          prevConnLayersIDs = (case map_of g0 layerID of Some s \<Rightarrow> s | None \<Rightarrow> []);
          idsToDelete = fold set_add (filter (\<lambda>id. id \<notin> set connLayersIDs) prevConnLayersIDs) [];
          idsToCreate = fold set_add (filter (\<lambda>id. id \<notin> set prevConnLayersIDs) connLayersIDs) []
      in if del then
           (case forIdsToDelete layerID idsToDelete g0 of
              (Some e, g1) \<Rightarrow> (Some e, g1)
            | (None, g1) \<Rightarrow> forIdsToCreate layerID idsToCreate g1)
         else forIdsToCreate layerID idsToCreate g0)"

text \<open>
  \<^verbatim>\<open>
  const getAreaFromCache = (layerID, layerGroup) => {
      if (!(layerID in areaCache)) {
          let layer = layerGroup.getLayer(layerID)
          if (layer) { areaCache[layerID] = Turf.area(layer.toGeoJSON()) }
          else { throw new Error("Layer not found") }
      }
      return areaCache[layerID]
  }
  \<close>
\<close>

definition getAreaFromCache ::
  "('f, 'b) Turf \<Rightarrow> nat \<Rightarrow> 'f LayerGroup \<Rightarrow> cache \<Rightarrow> (error + real) \<times> cache" where
  "getAreaFromCache T layerID layerGroup c =
     (case c layerID of
        Some a \<Rightarrow> (Inr a, c)
      | None \<Rightarrow>
          (case getLayer layerGroup layerID of
             Some l \<Rightarrow> (let a = turf_area T (toGeoJSON l) in (Inr a, c(layerID \<mapsto> a)))
           | None \<Rightarrow> (Inl LayerNotFound, c)))"

section \<open>The cluster traversal of the incremental rule\<close>

text \<open>
  \<^verbatim>\<open>
  function _recursiveGetTotalArea(layerID, layerGroup, checkedLayerIDs) {
      if (checkedLayerIDs.has(layerID)) { return 0; } else { checkedLayerIDs.add(layerID); }
      let totalArea = getAreaFromCache(layerID, layerGroup)
      for (let otherLayerID of layersGraph[layerID]) {
          totalArea += _recursiveGetTotalArea(otherLayerID, layerGroup, checkedLayerIDs);
      }
      return totalArea;
  }
  \<close>
  The traversal reads the graph \<open>g\<close> and does not change it; it changes the
  area cache and the set \<open>checkedLayerIDs\<close>, which are passed in and returned.
  \<open>forOtherLayerIDs\<close> is the \<^verbatim>\<open>for\<close> loop.  Iterating \<^verbatim>\<open>layersGraph[layerID]\<close>
  when there is no such entry raises a TypeError.
\<close>

function recursiveGetTotalArea ::
    "('f, 'b) Turf \<Rightarrow> graph \<Rightarrow> nat \<Rightarrow> 'f LayerGroup \<Rightarrow> cache \<times> nat list
       \<Rightarrow> (error + real) \<times> cache \<times> nat list"
  and forOtherLayerIDs ::
    "('f, 'b) Turf \<Rightarrow> graph \<Rightarrow> 'f LayerGroup \<Rightarrow> nat list \<Rightarrow> real \<Rightarrow> cache \<times> nat list
       \<Rightarrow> (error + real) \<times> cache \<times> nat list"
where
  "recursiveGetTotalArea T g layerID layerGroup (c, checkedLayerIDs) =
     (if layerID \<in> set checkedLayerIDs then (Inr 0, c, checkedLayerIDs)
      else
        (case getAreaFromCache T layerID layerGroup c of
           (Inl e, c') \<Rightarrow> (Inl e, c', checkedLayerIDs @ [layerID])
         | (Inr a, c') \<Rightarrow>
             (case map_of g layerID of
                None \<Rightarrow> (Inl TypeError, c', checkedLayerIDs @ [layerID])
              | Some others \<Rightarrow>
                  forOtherLayerIDs T g layerGroup others a (c', checkedLayerIDs @ [layerID]))))"
| "forOtherLayerIDs T g layerGroup [] totalArea (c, checkedLayerIDs) =
     (Inr totalArea, c, checkedLayerIDs)"
| "forOtherLayerIDs T g layerGroup (otherLayerID # rest) totalArea (c, checkedLayerIDs) =
     (case recursiveGetTotalArea T g otherLayerID layerGroup (c, checkedLayerIDs) of
        (Inl e, c', checked') \<Rightarrow> (Inl e, c', checked')
      | (Inr a, c', checked') \<Rightarrow>
          forOtherLayerIDs T g layerGroup rest (js_plus T totalArea a) (c', checked'))"
  by pat_completeness auto

text \<open>
  Termination: every call that goes on adds a key of the graph to the checked
  set, and no call removes an id from it.
\<close>

termination
proof -
  have checked_mono:
    "recursiveGetTotalArea_forOtherLayerIDs_dom (Inl (T, g, layerID, layerGroup, cc)) \<Longrightarrow>
       set (snd cc) \<subseteq> set (snd (snd (recursiveGetTotalArea T g layerID layerGroup cc)))"
    "recursiveGetTotalArea_forOtherLayerIDs_dom (Inr (T, g, layerGroup, ids, totalArea, cc)) \<Longrightarrow>
       set (snd cc) \<subseteq> set (snd (snd (forOtherLayerIDs T g layerGroup ids totalArea cc)))"
    for T :: "('f, 'b) Turf" and g layerID and layerGroup :: "'f LayerGroup" and cc ids totalArea
  proof (induction T g layerID layerGroup cc and T g layerGroup ids totalArea cc
      rule: recursiveGetTotalArea_forOtherLayerIDs.pinduct)
    case (1 T g layerID layerGroup c checkedLayerIDs)
    then show ?case
      by (auto simp: recursiveGetTotalArea.psimps split: prod.splits sum.splits option.splits)
  next
    case (2 T g layerGroup totalArea c checkedLayerIDs)
    then show ?case
      by (simp add: forOtherLayerIDs.psimps)
  next
    case (3 T g layerGroup otherLayerID rest totalArea c checkedLayerIDs)
    then show ?case
      by (fastforce simp: forOtherLayerIDs.psimps split: prod.splits sum.splits)
  qed
  show ?thesis
  proof (relation "inv_image (less_than <*lex*> less_than) (\<lambda>x. case x of
            Inl (T, g, layerID, layerGroup, c, checked) \<Rightarrow> (card (fst ` set g - set checked), 0)
          | Inr (T, g, layerGroup, ids, totalArea, c, checked) \<Rightarrow>
              (card (fst ` set g - set checked), Suc (length ids)))", goal_cases)
    case 1
    show ?case
      by (intro wf_inv_image wf_lex_prod wf_less_than)
  next
    case (2 T g layerID layerGroup c checkedLayerIDs x y a others)
    then have "layerID \<in> fst ` set g - set checkedLayerIDs"
      by (auto dest!: map_of_SomeD intro: rev_image_eqI)
    then have "card (fst ` set g - set (checkedLayerIDs @ [layerID]))
        < card (fst ` set g - set checkedLayerIDs)"
      by (intro psubset_card_mono) auto
    then show ?case
      by simp
  next
    case (3 T g layerGroup otherLayerID rest totalArea c checkedLayerIDs)
    then show ?case
      by simp
  next
    case (4 T g layerGroup otherLayerID rest totalArea c checkedLayerIDs x y a xa ya)
    then have "set checkedLayerIDs \<subseteq> set ya"
      using checked_mono(1) [of T g otherLayerID layerGroup "(c, checkedLayerIDs)"]
      by (metis snd_conv)
    then have "card (fst ` set g - set ya) \<le> card (fst ` set g - set checkedLayerIDs)"
      by (intro card_mono) auto
    then show ?case
      by auto
  qed
qed

section \<open>The cluster rules\<close>

text \<open>
  \<^verbatim>\<open>Math.round\<close> rounds to the nearest integer, a half upwards.
  \<^verbatim>\<open>toString\<close> of an integral number is its decimal numeral (below \<open>10^21\<close>;
  JavaScript switches to exponent notation from there on, which is not
  modelled).
\<close>

definition Math_round :: "real \<Rightarrow> int" where
  "Math_round x = \<lfloor>x + 1 / 2\<rfloor>"

fun digits :: "nat \<Rightarrow> string" where
  "digits n = (if n < 10 then [''0123456789'' ! n]
               else digits (n div 10) @ [''0123456789'' ! (n mod 10)])"

definition toString :: "int \<Rightarrow> string" where
  "toString i = (if i < 0 then CHR ''-'' # digits (nat (- i)) else digits (nat i))"

text \<open>
  The end of both cluster callbacks; the last character of the text is the
  superscript two, code unit \<open>0xB2\<close>.
  \<^verbatim>\<open>
  if (totalArea > MAX_CLUSTER_SIZE) {
      return { triggered: true, shortMessage: `Cluster too big: ${Math.round(totalArea).toString()}m2` };
  }
  return { triggered: false };
  \<close>
\<close>

definition clusterResult :: "real \<Rightarrow> result" where
  "clusterResult totalArea =
     (if totalArea > MAX_CLUSTER_SIZE
      then \<lparr>triggered = True,
            shortMessage = Some (''Cluster too big: '' @ toString (Math_round totalArea) @ ''m'' @ [CHR 0xB2]),
            message = None\<rparr>
      else \<lparr>triggered = False, shortMessage = None, message = None\<rparr>)"

text \<open>
  The callback of fastOverlap (rule.ts 426-481), in the order of the source:
  the flag and the call counter, the garbage collection, the neighbours of the
  entity's layer, the update of the graph, the traversal
  (\<open>fastOverlap_totalArea\<close>, lines 427-471), and then the decision on the value
  of \<^verbatim>\<open>totalArea\<close> (lines 477-480).  What an exception leaves behind is the
  state reached when it was raised.  The reads of the first sub-layer's name
  (lines 436 and 456) only feed the logging and are left out, and with them
  the TypeError they raise for a layer that has no sub-layer with a feature:
  every layer is taken to have one, as the layers of entities do.  The logging
  itself prints nothing that is returned.
\<close>

definition fastOverlap_totalArea ::
  "('f, 'b) Turf \<Rightarrow> 'f LayerGroup \<Rightarrow> 'f MapEntity \<Rightarrow> state \<Rightarrow> (error + real) \<times> state" where
  "fastOverlap_totalArea T layerGroup entity st =
     (let st1 = st\<lparr>hasRunOnce := True, pik := pik st + 1\<rparr>;
          l = entity_layer entity;
          layerID = leaflet_id l;
          st2 = deleteFromAreaCache layerGroup st1
      in case getOverlappingLayerIds T l layerGroup of
           Inl e \<Rightarrow> (Inl e, st2)
         | Inr overlappingLayersIDs \<Rightarrow>
             (case updateLayerGraph layerID overlappingLayersIDs True (layersGraph st2) of
                (Some e, g) \<Rightarrow> (Inl e, st2\<lparr>layersGraph := g\<rparr>)
              | (None, g) \<Rightarrow>
                  (case recursiveGetTotalArea T g layerID layerGroup (areaCache st2, []) of
                     (totalArea, c, checkedLayerIDs) \<Rightarrow>
                       (totalArea, st2\<lparr>layersGraph := g, areaCache := c\<rparr>))))"

definition fastOverlap_callback ::
  "('f, 'b) Turf \<Rightarrow> 'f LayerGroup \<Rightarrow> 'f MapEntity \<Rightarrow> state \<Rightarrow> (error + result) \<times> state" where
  "fastOverlap_callback T layerGroup entity st =
     (case fastOverlap_totalArea T layerGroup entity st of
        (Inl e, st') \<Rightarrow> (Inl e, st')
      | (Inr totalArea, st') \<Rightarrow> (Inr (clusterResult totalArea), st'))"

definition fastOverlap ::
  "('f, 'b) Turf \<Rightarrow> 'f LayerGroup \<Rightarrow> nat \<Rightarrow> string \<Rightarrow> string \<Rightarrow> ('f MapEntity, state) Rule" where
  "fastOverlap T layerGroup sev shortMsg msg =
     newRule sev shortMsg msg (fastOverlap_callback T layerGroup)"

section \<open>The naive cluster rule\<close>

text \<open>
  The geometry of the other layer in _getTotalAreaOfOverlappingEntities
  (rule.ts 521-530); \<open>None\<close> is the \<^verbatim>\<open>return\<close> that leaves the callback of
  \<^verbatim>\<open>eachLayer\<close> for a value that is neither a feature nor a feature collection.
\<close>

definition otherLayerPolygon_naive :: "'f Layer \<Rightarrow> 'f option option" where
  "otherLayerPolygon_naive otherLayer =
     (case toGeoJSON otherLayer of
        Feature geometry \<Rightarrow> Some (Some geometry)
      | FeatureCollection features \<Rightarrow> Some (case features of [] \<Rightarrow> None | f # _ \<Rightarrow> Some f)
      | OtherGeoJSON \<Rightarrow> None)"

text \<open>
  \<^verbatim>\<open>
  function _getTotalAreaOfOverlappingEntities(layer, layerGroup, checkedOverlappingLayers) {
      if (checkedOverlappingLayers.has(layer._leaflet_id)) { return 0; }
      else { checkedOverlappingLayers.add(layer._leaflet_id); }
      let totalArea = Turf.area(layer.toGeoJSON());
      let buffer = Turf.buffer(layer.toGeoJSON(), FIRE_BUFFER_IN_METER, { units: 'meters' });
      layerGroup.eachLayer((otherLayer) => {
          if (!_compareLayers(layer, otherLayer)) {
              ... otherLayerPolygon, or return ...
              if (Turf.booleanOverlap(buffer.features[0], otherLayerPolygon)) {
                  totalArea += _getTotalAreaOfOverlappingEntities(otherLayer, layerGroup, checkedOverlappingLayers);
                  return;
              }
          }
      });
      return totalArea;
  }
  \<close>
  \<open>getTotalArea_eachLayer\<close> is the \<^verbatim>\<open>eachLayer\<close> loop over the layers still to visit.
\<close>

function getTotalAreaOfOverlappingEntities ::
    "('f, 'b) Turf \<Rightarrow> 'f Layer \<Rightarrow> 'f LayerGroup \<Rightarrow> nat list \<Rightarrow> real \<times> nat list"
  and getTotalArea_eachLayer ::
    "('f, 'b) Turf \<Rightarrow> 'f Layer \<Rightarrow> 'b \<Rightarrow> 'f LayerGroup \<Rightarrow> 'f Layer list \<Rightarrow> real \<Rightarrow> nat list
       \<Rightarrow> real \<times> nat list"
where
  "getTotalAreaOfOverlappingEntities T l layerGroup checkedOverlappingLayers =
     (if leaflet_id l \<in> set checkedOverlappingLayers then (0, checkedOverlappingLayers)
      else getTotalArea_eachLayer T l (turf_buffer T (toGeoJSON l) FIRE_BUFFER_IN_METER)
             layerGroup layerGroup (turf_area T (toGeoJSON l))
             (checkedOverlappingLayers @ [leaflet_id l]))"
| "getTotalArea_eachLayer T l buf layerGroup [] totalArea checkedOverlappingLayers =
     (totalArea, checkedOverlappingLayers)"
| "getTotalArea_eachLayer T l buf layerGroup (otherLayer # rest) totalArea checkedOverlappingLayers =
     (if \<not> compareLayers l otherLayer then
        (case otherLayerPolygon_naive otherLayer of
           None \<Rightarrow> getTotalArea_eachLayer T l buf layerGroup rest totalArea checkedOverlappingLayers
         | Some otherLayerPolygon \<Rightarrow>
             (if turf_booleanOverlap T buf otherLayerPolygon then
                (case getTotalAreaOfOverlappingEntities T otherLayer layerGroup
                        checkedOverlappingLayers of
                   (a, checked') \<Rightarrow>
                     getTotalArea_eachLayer T l buf layerGroup rest (js_plus T totalArea a) checked')
              else getTotalArea_eachLayer T l buf layerGroup rest totalArea
                     checkedOverlappingLayers))
      else getTotalArea_eachLayer T l buf layerGroup rest totalArea checkedOverlappingLayers)"
  by pat_completeness auto

termination
proof -
  have checked_mono:
    "getTotalAreaOfOverlappingEntities_getTotalArea_eachLayer_dom (Inl (T, l, layerGroup, checked)) \<Longrightarrow>
       set checked \<subseteq> set (snd (getTotalAreaOfOverlappingEntities T l layerGroup checked))"
    "getTotalAreaOfOverlappingEntities_getTotalArea_eachLayer_dom
         (Inr (T, l, buf, layerGroup, rest, totalArea, checked)) \<Longrightarrow>
       set checked \<subseteq> set (snd (getTotalArea_eachLayer T l buf layerGroup rest totalArea checked))"
    for T :: "('f, 'b) Turf" and l :: "'f Layer" and layerGroup :: "'f LayerGroup" and checked buf rest totalArea
  proof (induction T l layerGroup checked and T l buf layerGroup rest totalArea checked
      rule: getTotalAreaOfOverlappingEntities_getTotalArea_eachLayer.pinduct)
    case (1 T l layerGroup checkedOverlappingLayers)
    then show ?case
      by (auto simp: getTotalAreaOfOverlappingEntities.psimps)
  next
    case (2 T l buf layerGroup totalArea checkedOverlappingLayers)
    then show ?case
      by (simp add: getTotalArea_eachLayer.psimps)
  next
    case (3 T l buf layerGroup otherLayer rest totalArea checked)
    note ps = getTotalArea_eachLayer.psimps(2) [OF "3.hyps"]
    show ?case
    proof (cases "compareLayers l otherLayer")
      case True
      then show ?thesis
        using "3.IH"(5) by (simp add: ps)
    next
      case nc: False
      show ?thesis
      proof (cases "otherLayerPolygon_naive otherLayer")
        case None
        then show ?thesis
          using "3.IH"(1) nc by (simp add: ps)
      next
        case (Some p)
        show ?thesis
        proof (cases "turf_booleanOverlap T buf p")
          case ov: True
          obtain a ch' where r:
            "getTotalAreaOfOverlappingEntities T otherLayer layerGroup checked = (a, ch')"
            by fastforce
          from "3.IH"(2) [OF nc Some ov] r have "set checked \<subseteq> set ch'"
            by simp
          moreover from "3.IH"(3) [OF nc Some ov r [symmetric]]
          have "set ch' \<subseteq> set (snd (getTotalArea_eachLayer T l buf layerGroup rest (js_plus T totalArea a) ch'))" .
          ultimately show ?thesis
            using nc Some ov r by (simp add: ps)
        next
          case False
          then show ?thesis
            using "3.IH"(4) nc Some by (simp add: ps)
        qed
      qed
    qed
  qed
  show ?thesis
  proof (relation "inv_image (less_than <*lex*> less_than) (\<lambda>x. case x of
            Inl (T, l, layerGroup, checked) \<Rightarrow>
              (card (insert (leaflet_id l) (leaflet_id ` set layerGroup) - set checked), 0)
          | Inr (T, l, buf, layerGroup, rest, totalArea, checked) \<Rightarrow>
              (card ((leaflet_id ` set layerGroup \<union> leaflet_id ` set rest) - set checked),
               Suc (length rest)))", goal_cases)
    case 1
    show ?case
      by (intro wf_inv_image wf_lex_prod wf_less_than)
  next
    case (2 T l layerGroup checked)
    then have "(leaflet_id ` set layerGroup \<union> leaflet_id ` set layerGroup) - set (checked @ [leaflet_id l])
        \<subset> insert (leaflet_id l) (leaflet_id ` set layerGroup) - set checked"
      by auto
    then have "card ((leaflet_id ` set layerGroup \<union> leaflet_id ` set layerGroup) - set (checked @ [leaflet_id l]))
        < card (insert (leaflet_id l) (leaflet_id ` set layerGroup) - set checked)"
      by (intro psubset_card_mono) auto
    then show ?case
      by simp
  next
    case (3 T l buf layerGroup otherLayer rest totalArea checked)
    have "card ((leaflet_id ` set layerGroup \<union> leaflet_id ` set rest) - set checked)
        \<le> card ((leaflet_id ` set layerGroup \<union> leaflet_id ` set (otherLayer # rest)) - set checked)"
      by (intro card_mono) auto
    then show ?case
      by auto
  next
    case (4 T l buf layerGroup otherLayer rest totalArea checked x2)
    have "card (insert (leaflet_id otherLayer) (leaflet_id ` set layerGroup) - set checked)
        \<le> card ((leaflet_id ` set layerGroup \<union> leaflet_id ` set (otherLayer # rest)) - set checked)"
      by (intro card_mono) auto
    then show ?case
      by auto
  next
    case (5 T l buf layerGroup otherLayer rest totalArea checked x2 x y)
    then have "set checked \<subseteq> set y"
      using checked_mono(1) [of T otherLayer layerGroup checked]
      by (metis snd_conv)
    then have "card ((leaflet_id ` set layerGroup \<union> leaflet_id ` set rest) - set y)
        \<le> card ((leaflet_id ` set layerGroup \<union> leaflet_id ` set (otherLayer # rest)) - set checked)"
      by (intro card_mono) auto
    then show ?case
      by auto
  next
    case (6 T l buf layerGroup otherLayer rest totalArea checked x2)
    have "card ((leaflet_id ` set layerGroup \<union> leaflet_id ` set rest) - set checked)
        \<le> card ((leaflet_id ` set layerGroup \<union> leaflet_id ` set (otherLayer # rest)) - set checked)"
      by (intro card_mono) auto
    then show ?case
      by auto
  next
    case (7 T l buf layerGroup otherLayer rest totalArea checked)
    have "card ((leaflet_id ` set layerGroup \<union> leaflet_id ` set rest) - set checked)
        \<le> card ((leaflet_id ` set layerGroup \<union> leaflet_id ` set (otherLayer # rest)) - set checked)"
      by (intro card_mono) auto
    then show ?case
      by auto
  qed
qed

text \<open>
  The callback of isBufferOverlappingRecursive (rule.ts 484-493).  It reads
  and writes no module-level state.
\<close>

definition isBufferOverlappingRecursive_callback ::
  "('f, 'b) Turf \<Rightarrow> 'f LayerGroup \<Rightarrow> 'f MapEntity \<Rightarrow> state \<Rightarrow> (error + result) \<times> state" where
  "isBufferOverlappingRecursive_callback T layerGroup entity st =
     (let totalArea = fst (getTotalAreaOfOverlappingEntities T (entity_layer entity) layerGroup [])
      in (Inr (clusterResult totalArea), st))"

definition isBufferOverlappingRecursive ::
  "('f, 'b) Turf \<Rightarrow> 'f LayerGroup \<Rightarrow> nat \<Rightarrow> string \<Rightarrow> string \<Rightarrow> ('f MapEntity, state) Rule" where
  "isBufferOverlappingRecursive T layerGroup sev shortMsg msg =
     newRule sev shortMsg msg (isBufferOverlappingRecursive_callback T layerGroup)"

section \<open>Notions used in the statements\<close>

text \<open>
  The adjacency the graph object stands for: the set stored under each id
  that has an entry.
\<close>

definition graph_adj :: "graph \<Rightarrow> nat \<rightharpoonup> nat set" where
  "graph_adj g a = map_option set (map_of g a)"

text \<open>
  \<open>nbrs g a\<close> is \<^verbatim>\<open>graph[a]\<close> as a set,
  empty when \<open>a\<close> has no entry.
\<close>

definition nbrs :: "graph \<Rightarrow> nat \<Rightarrow> nat set" where
  "nbrs g a = (case map_of g a of None \<Rightarrow> {} | Some s \<Rightarrow> set s)"

text \<open>
  The ids with an entry in the graph that \<^verbatim>\<open>getLayer\<close>
  no longer finds in the layer group.
\<close>

definition dead_keys :: "'f LayerGroup \<Rightarrow> graph \<Rightarrow> nat set" where
  "dead_keys layerGroup g = {k \<in> fst ` set g. getLayer layerGroup k = None}"

text \<open>
  Edges are undirected: \<open>a\<close> is in
  \<^verbatim>\<open>graph[b]\<close> exactly when \<open>b\<close> is in
  \<^verbatim>\<open>graph[a]\<close>.
\<close>

definition graph_symmetric :: "graph \<Rightarrow> bool" where
  "graph_symmetric g \<longleftrightarrow> (\<forall>a b. a \<in> nbrs g b \<longleftrightarrow> b \<in> nbrs g a)"

text \<open>
  Every id that occurs in a neighbour set has an entry of its own.
\<close>

definition graph_closed :: "graph \<Rightarrow> bool" where
  "graph_closed g \<longleftrightarrow> (\<forall>a b. b \<in> nbrs g a \<longrightarrow> map_of g b \<noteq> None)"

text \<open>
  What the traversal may add to the area cache: entries for ids that are in
  the layer group and have an entry in the graph.
\<close>

definition cache_grows :: "graph \<Rightarrow> 'f LayerGroup \<Rightarrow> cache \<Rightarrow> cache \<Rightarrow> bool" where
  "cache_grows g layerGroup c c' \<longleftrightarrow>
     (\<forall>k. c' k \<noteq> None \<longrightarrow> c k \<noteq> None \<or> (getLayer layerGroup k \<noteq> None \<and> map_of g k \<noteq> None))"

text \<open>
  The invariant of the module-level state: the graph is symmetric and closed,
  and every cached id has an entry in the graph.
\<close>

definition state_inv :: "state \<Rightarrow> bool" where
  "state_inv st \<longleftrightarrow>
     graph_symmetric (layersGraph st) \<and> graph_closed (layersGraph st) \<and>
     (\<forall>k. areaCache st k \<noteq> None \<longrightarrow> map_of (layersGraph st) k \<noteq> None)"

text \<open>
  A sequence of evaluations of the incremental cluster rule, each for some
  entity and on the layer group as it is at that time; the layer group may
  change in any way between two evaluations.
\<close>

fun run :: "('f, 'b) Turf \<Rightarrow> ('f LayerGroup \<times> 'f MapEntity) list \<Rightarrow> state \<Rightarrow> state" where
  "run T [] st = st"
| "run T ((layerGroup, entity) # evs) st =
     run T evs (snd (fastOverlap_callback T layerGroup entity st))"

text \<open>
  The state of an evaluation after its garbage collection.
\<close>

definition after_gc :: "'f LayerGroup \<Rightarrow> state \<Rightarrow> state" where
  "after_gc layerGroup st =
     deleteFromAreaCache layerGroup (st\<lparr>hasRunOnce := True, pik := pik st + 1\<rparr>)"

text \<open>
  Example inputs: features are numbers, two features overlap when the numbers
  are adjacent; layer \<open>k\<close> is the feature collection of the
  feature \<open>k\<close>.
\<close>

definition T_example :: "(nat, nat) Turf" where
  "T_example =
     \<lparr>turf_area = (\<lambda>g. case g of FeatureCollection [k] \<Rightarrow>
                           (if k = 1 then 700 else if k = 2 then 600 else 100)
                         | _ \<Rightarrow> 0),
      turf_buffer = (\<lambda>g d. case g of FeatureCollection (k # _) \<Rightarrow> k | Feature k \<Rightarrow> k | _ \<Rightarrow> 0),
      turf_booleanOverlap = (\<lambda>b p. case p of Some q \<Rightarrow> b = Suc q \<or> q = Suc b | None \<Rightarrow> False),
      js_plus = (+)\<rparr>"

definition L_example :: "nat \<Rightarrow> nat Layer" where
  "L_example k = \<lparr>leaflet_id = k, toGeoJSON = FeatureCollection [k]\<rparr>"

text \<open>
  The reference of claim C6, after the words of the specification: discard
  the edges of \<open>E\<close> entirely (its own set is emptied and \<open>E\<close> leaves every
  other set), then insert the neighbour set \<open>N\<close> fresh (every member of \<open>N\<close>
  gets an entry if it has none, and the edge is added on both sides).
\<close>

definition discard_edges :: "nat \<Rightarrow> (nat \<rightharpoonup> nat set) \<Rightarrow> (nat \<rightharpoonup> nat set)" where
  "discard_edges E G = (\<lambda>a. if a = E then Some {} else map_option (\<lambda>S. S - {E}) (G a))"

definition insert_fresh :: "nat \<Rightarrow> nat set \<Rightarrow> (nat \<rightharpoonup> nat set) \<Rightarrow> (nat \<rightharpoonup> nat set)" where
  "insert_fresh E N G =
     (\<lambda>a. if a = E then Some ((case G E of None \<Rightarrow> {} | Some S \<Rightarrow> S) \<union> N)
          else if a \<in> N then Some (insert E (case G a of None \<Rightarrow> {} | Some S \<Rightarrow> S))
          else G a)"

definition wholesale_replacement :: "nat \<Rightarrow> nat set \<Rightarrow> (nat \<rightharpoonup> nat set) \<Rightarrow> (nat \<rightharpoonup> nat set)" where
  "wholesale_replacement E N G = insert_fresh E N (discard_edges E G)"

text \<open>
  A layer whose feature collection has two member features, the second of
  which is next to feature 1, and a layer whose geometry value is neither a
  feature nor a feature collection.
\<close>

definition M_example :: "nat Layer" where
  "M_example = \<lparr>leaflet_id = 5, toGeoJSON = FeatureCollection [7, 2]\<rparr>"

definition B_example :: "nat Layer" where
  "B_example = \<lparr>leaflet_id = 2, toGeoJSON = OtherGeoJSON\<rparr>"

text \<open>
  The area getAreaFromCache yields for an id: the cached number, else the
  area of the layer with that id.
\<close>

definition areaOf :: "('f, 'b) Turf \<Rightarrow> 'f LayerGroup \<Rightarrow> cache \<Rightarrow> nat \<Rightarrow> real" where
  "areaOf T layerGroup c x =
     (case c x of
        Some a \<Rightarrow> a
      | None \<Rightarrow> (case getLayer layerGroup x of Some l \<Rightarrow> turf_area T (toGeoJSON l) | None \<Rightarrow> 0))"

text \<open>The edges of the graph, and the cluster of an id: what is reachable from it.\<close>

definition edges :: "graph \<Rightarrow> (nat \<times> nat) set" where
  "edges g = {(a, b). b \<in> nbrs g a}"

definition cluster :: "graph \<Rightarrow> nat \<Rightarrow> nat set" where
  "cluster g x = (edges g)\<^sup>* `` {x}"

text \<open>
  A set of ids on which the traversal cannot fail: each has an entry in the
  graph, its neighbours are in the set, and its area is cached or its layer is
  in the layer group.
\<close>

definition traversable :: "graph \<Rightarrow> 'f LayerGroup \<Rightarrow> cache \<Rightarrow> nat set \<Rightarrow> bool" where
  "traversable g layerGroup c U \<longleftrightarrow>
     (\<forall>x \<in> U. map_of g x \<noteq> None \<and> nbrs g x \<subseteq> U \<and> (c x \<noteq> None \<or> getLayer layerGroup x \<noteq> None))"

text \<open>
  \<open>adds_up add M v\<close>: the number \<open>v\<close> is a result of adding up, with the
  addition \<open>add\<close>, the numbers of the multiset \<open>M\<close>, each exactly once, and
  zeros, in some order and grouping.  Whatever the addition, this says which
  numbers have been counted and how often; with exact addition it says that
  \<open>v\<close> is the sum of \<open>M\<close>.
\<close>

inductive adds_up :: "(real \<Rightarrow> real \<Rightarrow> real) \<Rightarrow> real multiset \<Rightarrow> real \<Rightarrow> bool"
  for add :: "real \<Rightarrow> real \<Rightarrow> real" where
  zero: "adds_up add {#} 0"
| one: "adds_up add {#a#} a"
| plus: "adds_up add M u \<Longrightarrow> adds_up add N v \<Longrightarrow> adds_up add (M + N) (add u v)"

text \<open>
  What a call of the traversal, started with the ids \<open>S\<close>, the cache \<open>c\<close> and the
  checked ids \<open>ch\<close>, has done when it returns \<open>res\<close>: it has appended the new
  ids \<open>new\<close>, each once, has cached their areas, and its total adds up the
  numbers \<open>M0\<close> it started from and the areas of the new ids.
\<close>

definition traversal_post ::
  "('f, 'b) Turf \<Rightarrow> graph \<Rightarrow> 'f LayerGroup \<Rightarrow> nat set \<Rightarrow> real multiset \<Rightarrow> cache \<Rightarrow> nat list
     \<Rightarrow> (error + real) \<times> cache \<times> nat list \<Rightarrow> bool" where
  "traversal_post T g layerGroup S M0 c ch res \<longleftrightarrow>
     (\<exists>new total.
        res = (Inr total,
               (\<lambda>k. if k \<in> set new then Some (areaOf T layerGroup c k) else c k),
               ch @ new)
        \<and> adds_up (js_plus T) (M0 + image_mset (areaOf T layerGroup c) (mset new)) total
        \<and> distinct new \<and> set new \<inter> set ch = {}
        \<and> set new \<subseteq> (edges g)\<^sup>* `` S
        \<and> S \<subseteq> set ch \<union> set new
        \<and> (\<forall>y \<in> set new. nbrs g y \<subseteq> set ch \<union> set new))"

text \<open>
  The neighbour test of the naive rule: \<open>otherLayer\<close> is another layer, of a
  supported shape, whose geometry overlaps the buffered layer \<open>l\<close>.  The edges
  it gives between the ids of a layer group, and the area of the layer with a
  given id.
\<close>

definition naive_edge :: "('f, 'b) Turf \<Rightarrow> 'f Layer \<Rightarrow> 'f Layer \<Rightarrow> bool" where
  "naive_edge T l otherLayer \<longleftrightarrow>
     \<not> compareLayers l otherLayer \<and>
     (\<exists>p. otherLayerPolygon_naive otherLayer = Some p \<and>
          turf_booleanOverlap T (turf_buffer T (toGeoJSON l) FIRE_BUFFER_IN_METER) p)"

definition naive_edges :: "('f, 'b) Turf \<Rightarrow> 'f LayerGroup \<Rightarrow> (nat \<times> nat) set" where
  "naive_edges T layerGroup =
     {(leaflet_id a, leaflet_id b) | a b. a \<in> set layerGroup \<and> b \<in> set layerGroup \<and> naive_edge T a b}"

definition layerArea :: "('f, 'b) Turf \<Rightarrow> 'f LayerGroup \<Rightarrow> nat \<Rightarrow> real" where
  "layerArea T layerGroup y =
     (case getLayer layerGroup y of Some l \<Rightarrow> turf_area T (toGeoJSON l) | None \<Rightarrow> 0)"

text \<open>
  What a call of the naive traversal, started with the ids \<open>S\<close> and the checked
  ids \<open>ch\<close>, has done when it returns \<open>res\<close>: its total adds up the numbers \<open>M0\<close>
  it started from and the areas of the new ids.
\<close>

definition naive_post ::
  "('f, 'b) Turf \<Rightarrow> 'f LayerGroup \<Rightarrow> nat set \<Rightarrow> real multiset \<Rightarrow> nat list
     \<Rightarrow> real \<times> nat list \<Rightarrow> bool" where
  "naive_post T layerGroup S M0 ch res \<longleftrightarrow>
     (\<exists>new total. res = (total, ch @ new)
        \<and> adds_up (js_plus T) (M0 + image_mset (layerArea T layerGroup) (mset new)) total
        \<and> distinct new \<and> set new \<inter> set ch = {}
        \<and> set new \<subseteq> (naive_edges T layerGroup)\<^sup>* `` S
        \<and> S \<subseteq> set ch \<union> set new
        \<and> (\<forall>y \<in> set new. naive_edges T layerGroup `` {y} \<subseteq> set ch \<union> set new))"

text \<open>
  The persistent state agrees with a snapshot of the layer group: for every
  layer other than the evaluated one, the neighbours recorded for it are the
  layers its own neighbour test finds (the evaluated layer apart: its edges
  are recomputed by the evaluation), and every cached area of a layer of the
  group is the area of that layer.
\<close>

definition graph_current :: "('f, 'b) Turf \<Rightarrow> 'f LayerGroup \<Rightarrow> nat \<Rightarrow> graph \<Rightarrow> bool" where
  "graph_current T layerGroup E g \<longleftrightarrow>
     (\<forall>l \<in> set layerGroup. leaflet_id l \<noteq> E \<longrightarrow>
        nbrs g (leaflet_id l) - {E} =
          {leaflet_id otherLayer | otherLayer. otherLayer \<in> set layerGroup \<and> naive_edge T l otherLayer} - {E})"

definition cache_agrees :: "('f, 'b) Turf \<Rightarrow> 'f LayerGroup \<Rightarrow> cache \<Rightarrow> bool" where
  "cache_agrees T layerGroup c \<longleftrightarrow>
     (\<forall>l \<in> set layerGroup. \<forall>a. c (leaflet_id l) = Some a \<longrightarrow> a = turf_area T (toGeoJSON l))"

text \<open>
  Two more example geometries on the layers \<open>L_example\<close>.  In \<open>T_asym\<close> the
  overlap test is not symmetric: the buffers of the features 2 and 3 overlap
  the feature 1, the buffer of the feature 1 overlaps nothing.  In \<open>T_double\<close>
  the areas are the doubles nearest to 507.1, 663.2 and 79.7 and numbers are
  added as JavaScript adds them.
\<close>

definition T_asym :: "(nat, nat) Turf" where
  "T_asym = T_example\<lparr>turf_booleanOverlap := (\<lambda>b p. (b = 2 \<or> b = 3) \<and> p = Some 1)\<rparr>"

definition T_double :: "(nat, nat) Turf" where
  "T_double = T_example
     \<lparr>turf_area := (\<lambda>g. case g of FeatureCollection [k] \<Rightarrow>
                          fl64 (if k = 1 then 5071 / 10 else if k = 2 then 6632 / 10 else 797 / 10)
                        | _ \<Rightarrow> 0),
      js_plus := js_add\<rparr>"

section \<open>Properties of checkRule\<close>

lemma checkRule_Inr:
  assumes "r_callback r entity s = (Inr res, s')"
  shows "checkRule r entity s =
    (Inr (r\<lparr>r_triggered := triggered res,
            r_shortMessage := (if truthy (shortMessage res) then the (shortMessage res)
                               else r_shortMessage r),
            r_message := (if truthy (message res) then the (message res)
                          else r_message r)\<rparr>), s')"
  using assms by (simp add: checkRule_def Let_def)

lemma checkRule_Inl:
  assumes "r_callback r entity s = (Inl err, s')"
  shows "checkRule r entity s = (Inl err, s')"
  using assms by (simp add: checkRule_def)

text \<open>
  Claim C9.  A call of checkRule whose callback returns \<open>res\<close> overwrites the
  triggered flag with \<open>triggered res\<close>; shortMessage and message are
  overwritten only if \<open>res\<close> includes them (a changed text is the included
  one), and are kept when \<open>res\<close> omits them; the configured severity and the
  bound callback are never changed.
\<close>

theorem checkRule_frame:
  assumes "r_callback r entity s = (Inr res, s')"
  shows "\<exists>r'. checkRule r entity s = (Inr r', s')
     \<and> r_triggered r' = triggered res
     \<and> (shortMessage res = None \<longrightarrow> r_shortMessage r' = r_shortMessage r)
     \<and> (r_shortMessage r' \<noteq> r_shortMessage r \<longrightarrow> shortMessage res = Some (r_shortMessage r'))
     \<and> (message res = None \<longrightarrow> r_message r' = r_message r)
     \<and> (r_message r' \<noteq> r_message r \<longrightarrow> message res = Some (r_message r'))
     \<and> r_severity r' = r_severity r
     \<and> r_callback r' = r_callback r"
proof -
  have sm: "truthy (shortMessage res) \<Longrightarrow> shortMessage res = Some (the (shortMessage res))"
    by (cases "shortMessage res") simp_all
  have m: "truthy (message res) \<Longrightarrow> message res = Some (the (message res))"
    by (cases "message res") simp_all
  show ?thesis
    unfolding checkRule_Inr [OF assms] using sm m by auto
qed

theorem checkRule_frame_witness:
  "\<exists>r'. checkRule (newRule 3 ''yo'' ''yooo''
            (\<lambda>(e::nat) (s::nat). (Inr \<lparr>triggered = True, shortMessage = Some ''big'', message = None\<rparr>, Suc s)))
          7 0 = (Inr r', 1)
     \<and> r_triggered r' \<and> r_message r' = ''yooo'' \<and> r_severity r' = 3"
proof -
  let ?res = "\<lparr>triggered = True, shortMessage = Some ''big'', message = None\<rparr>"
  let ?r = "newRule 3 ''yo'' ''yooo'' (\<lambda>(e::nat) (s::nat). (Inr ?res, Suc s))"
  have h: "r_callback ?r 7 0 = (Inr ?res, 1)"
    by (simp add: newRule_def)
  from checkRule_frame [OF h] obtain r' where
    "checkRule ?r 7 0 = (Inr r', 1)" "r_triggered r' = triggered ?res"
    "message ?res = None \<longrightarrow> r_message r' = r_message ?r" "r_severity r' = r_severity ?r"
    by (elim exE conjE)
  then show ?thesis
    by (intro exI [of _ r']) (simp add: newRule_def)
qed

text \<open>
  Claim C10.  Whether a supplied shortMessage or message is applied is decided
  by truthiness: a result that carries the empty string for either field
  leaves the stored text as it was, and the whole call has the same outcome as
  with a result that omits the field.
\<close>

theorem checkRule_empty_string_as_omitted:
  assumes "r_callback r entity s = (Inr res, s')"
    and "cb entity s =
      (Inr (res\<lparr>shortMessage := (if shortMessage res = Some [] then None else shortMessage res),
                message := (if message res = Some [] then None else message res)\<rparr>), s')"
  shows "\<exists>r'. checkRule r entity s = (Inr r', s')
      \<and> (shortMessage res = Some [] \<longrightarrow> r_shortMessage r' = r_shortMessage r)
      \<and> (message res = Some [] \<longrightarrow> r_message r' = r_message r)
      \<and> checkRule (r\<lparr>r_callback := cb\<rparr>) entity s = (Inr (r'\<lparr>r_callback := cb\<rparr>), s')"
  unfolding checkRule_Inr [OF assms(1)] using assms(2)
  by (auto simp: checkRule_def Let_def)

theorem checkRule_empty_string_as_omitted_witness:
  "\<exists>r'. checkRule (newRule 2 ''short'' ''long''
            (\<lambda>(e::nat) (s::nat). (Inr \<lparr>triggered = True, shortMessage = Some [], message = Some ''new''\<rparr>, s)))
          7 0 = (Inr r', 0)
      \<and> r_shortMessage r' = ''short''"
proof -
  let ?res = "\<lparr>triggered = True, shortMessage = Some [], message = Some ''new''\<rparr>"
  let ?r = "newRule 2 ''short'' ''long'' (\<lambda>(e::nat) (s::nat). (Inr ?res, s))"
  let ?cb = "\<lambda>(e::nat) (s::nat).
     (Inr \<lparr>triggered = True, shortMessage = None, message = Some ''new''\<rparr>, s)"
  have h: "r_callback ?r 7 0 = (Inr ?res, 0)"
    by (simp add: newRule_def)
  have h': "?cb 7 0 =
      (Inr (?res\<lparr>shortMessage := (if shortMessage ?res = Some [] then None else shortMessage ?res),
                message := (if message ?res = Some [] then None else message ?res)\<rparr>), 0)"
    by simp
  from checkRule_empty_string_as_omitted [of ?r 7 0 ?res 0 ?cb, OF h h'] obtain r' where
    "checkRule ?r 7 0 = (Inr r', 0)"
    "shortMessage ?res = Some [] \<longrightarrow> r_shortMessage r' = r_shortMessage ?r"
    by (elim conjE exE)
  then show ?thesis
    by (intro exI [of _ r']) (simp add: newRule_def)
qed

section \<open>The overlap graph under garbage collection and update\<close>

lemma nbrs_adj: "nbrs g a = (case graph_adj g a of None \<Rightarrow> {} | Some S \<Rightarrow> S)"
  by (simp add: nbrs_def graph_adj_def split: option.splits)

lemma adj_None: "graph_adj g a = None \<longleftrightarrow> map_of g a = None"
  by (simp add: graph_adj_def)

lemma set_set_delete: "set (set_delete x s) = set s - {x}"
  by (auto simp: set_delete_def)

lemma set_set_add: "set (set_add x s) = insert x (set s)"
  by (auto simp: set_add_def)

lemma set_fold_set_add: "set (fold set_add xs acc) = set acc \<union> set xs"
  by (induction xs arbitrary: acc) (auto simp: set_set_add)

lemma set_Object_keys: "set (Object_keys g) = fst ` set g"
  by (simp add: Object_keys_def)

lemma adj_update: "graph_adj (AList.update k v g) = (graph_adj g)(k \<mapsto> set v)"
  by (rule ext) (simp add: graph_adj_def update_conv')

lemma adj_delete: "graph_adj (AList.delete k g) = (graph_adj g)(k := None)"
  by (rule ext) (simp add: graph_adj_def delete_conv')

lemma map_of_map_snd: "map_of (map (\<lambda>(k, v). (k, f v)) g) a = map_option f (map_of g a)"
  by (induction g) auto

lemma adj_deleteLayerFromCache:
  "graph_adj (layersGraph (deleteLayerFromCache d st)) a =
     (if a = d then None else map_option (\<lambda>S. S - {d}) (graph_adj (layersGraph st) a))"
  by (simp add: deleteLayerFromCache_def graph_adj_def map_of_map_snd delete_conv'
      option.map_comp comp_def set_set_delete)

lemma cache_deleteLayerFromCache:
  "areaCache (deleteLayerFromCache d st) = (areaCache st)(d := None)"
  by (simp add: deleteLayerFromCache_def)

lemma gc_fold_adj:
  "graph_adj (layersGraph (fold (\<lambda>layerID st'. if getLayer layerGroup layerID = None
                          then deleteLayerFromCache layerID st' else st') ks st)) a =
      (if a \<in> {k \<in> set ks. getLayer layerGroup k = None} then None
       else map_option (\<lambda>S. S - {k \<in> set ks. getLayer layerGroup k = None})
              (graph_adj (layersGraph st) a))"
proof (induction ks arbitrary: st)
  case Nil
  show ?case by (simp add: option.map_ident)
next
  case (Cons k ks)
  show ?case
    by (cases "graph_adj (layersGraph st) a")
      (auto simp: Cons.IH adj_deleteLayerFromCache)
qed

lemma gc_fold_cache:
  "areaCache (fold (\<lambda>layerID st'. if getLayer layerGroup layerID = None
                          then deleteLayerFromCache layerID st' else st') ks st) x =
      (if x \<in> {k \<in> set ks. getLayer layerGroup k = None} then None else areaCache st x)"
proof (induction ks arbitrary: st)
  case Nil
  show ?case by simp
next
  case (Cons k ks)
  show ?case
    by (auto simp: Cons.IH cache_deleteLayerFromCache)
qed

lemma adj_deleteFromAreaCache:
  "graph_adj (layersGraph (deleteFromAreaCache layerGroup st)) a =
     (if a \<in> dead_keys layerGroup (layersGraph st) then None
      else map_option (\<lambda>S. S - dead_keys layerGroup (layersGraph st)) (graph_adj (layersGraph st) a))"
  unfolding deleteFromAreaCache_def dead_keys_def gc_fold_adj set_Object_keys ..

lemma cache_deleteFromAreaCache:
  "areaCache (deleteFromAreaCache layerGroup st) x =
     (if x \<in> dead_keys layerGroup (layersGraph st) then None else areaCache st x)"
  unfolding deleteFromAreaCache_def dead_keys_def gc_fold_cache set_Object_keys ..

lemma on_set_adj:
  assumes "graph_adj g k \<noteq> None"
  shows "\<exists>g'. on_set k f g = Inr g' \<and>
    graph_adj g' = (graph_adj g)(k \<mapsto> set (f (the (map_of g k))))"
  using assms by (auto simp: on_set_def adj_update graph_adj_def)

lemma forIdsToDelete_adj:
  assumes "graph_adj g E \<noteq> None" and "\<forall>i \<in> set ids. graph_adj g i \<noteq> None"
  shows "\<exists>g'. forIdsToDelete E ids g = (None, g') \<and>
    (\<forall>a. graph_adj g' a =
       map_option (\<lambda>S. S - (if a = E then set ids else {}) - (if a \<in> set ids then {E} else {}))
         (graph_adj g a))"
  using assms
proof (induction ids arbitrary: g)
  case Nil
  then show ?case by (simp add: option.map_ident)
next
  case (Cons i ids)
  from Cons.prems obtain s where s: "map_of g i = Some s"
    by (auto simp: graph_adj_def)
  let ?g1 = "AList.update i (set_delete E s) g"
  have g1: "on_set i (set_delete E) g = Inr ?g1"
    by (simp add: on_set_def s)
  have a1: "graph_adj ?g1 = (graph_adj g)(i \<mapsto> set s - {E})"
    by (simp add: adj_update set_set_delete)
  have "graph_adj ?g1 E \<noteq> None"
    using Cons.prems(1) by (simp add: a1)
  then obtain s' where s': "map_of ?g1 E = Some s'"
    by (auto simp: graph_adj_def)
  then have sE: "graph_adj ?g1 E = Some (set s')"
    by (simp add: graph_adj_def)
  let ?g2 = "AList.update E (set_delete i s') ?g1"
  have g2: "on_set E (set_delete i) ?g1 = Inr ?g2"
    by (simp add: on_set_def s')
  have a2: "graph_adj ?g2 = (graph_adj ?g1)(E \<mapsto> set s' - {i})"
    by (simp add: adj_update set_set_delete)
  have E2: "graph_adj ?g2 E \<noteq> None" and ids2: "\<forall>j \<in> set ids. graph_adj ?g2 j \<noteq> None"
    using Cons.prems by (simp_all add: a2 a1)
  from Cons.IH [OF E2 ids2] obtain g' where
    g': "forIdsToDelete E ids ?g2 = (None, g')"
    and adj': "\<And>a. graph_adj g' a =
       map_option (\<lambda>S. S - (if a = E then set ids else {}) - (if a \<in> set ids then {E} else {}))
         (graph_adj ?g2 a)"
    by blast
  have s'_set: "set s' = (if E = i then set s - {E} else the (graph_adj g E))"
    using sE Cons.prems(1) unfolding a1 by (auto split: if_splits)
  have "forIdsToDelete E (i # ids) g = (None, g')"
    by (simp add: g1 g2 g')
  moreover have "graph_adj g' a =
       map_option (\<lambda>S. S - (if a = E then set (i # ids) else {}) - (if a \<in> set (i # ids) then {E} else {}))
         (graph_adj g a)" for a
  proof -
    have gi: "graph_adj g i = Some (set s)"
      using s by (simp add: graph_adj_def)
    obtain SE where gE: "graph_adj g E = Some SE"
      using Cons.prems(1) by blast
    show ?thesis
      by (cases "graph_adj g a") (auto simp: adj' a2 a1 s'_set gi gE)
  qed
  ultimately show ?case by blast
qed

lemma forIdsToCreate_adj:
  assumes "graph_adj g E \<noteq> None"
  shows "\<exists>g'. forIdsToCreate E ids g = (None, g') \<and>
    (\<forall>a. graph_adj g' a =
       (if a = E then Some (nbrs g E \<union> set ids)
        else if a \<in> set ids then Some (insert E (nbrs g a))
        else graph_adj g a))"
  using assms
proof (induction ids arbitrary: g)
  case Nil
  then show ?case by (auto simp: nbrs_adj)
next
  case (Cons i ids)
  let ?g0 = "if map_of g i = None then AList.update i [] g else g"
  have a0: "graph_adj ?g0 = (if map_of g i = None then (graph_adj g)(i \<mapsto> {}) else graph_adj g)"
    by (simp add: adj_update)
  have n0: "nbrs ?g0 a = nbrs g a" for a
    by (auto simp: nbrs_adj a0 adj_update graph_adj_def split: option.splits)
  obtain s where s: "map_of ?g0 i = Some s"
    by (cases "map_of g i") (auto simp: update_conv')
  let ?g1 = "AList.update i (set_add E s) ?g0"
  have g1: "on_set i (set_add E) ?g0 = Inr ?g1"
    using s by (simp add: on_set_def)
  have a1: "graph_adj ?g1 = (graph_adj ?g0)(i \<mapsto> insert E (nbrs g i))"
    using s n0 [of i] by (simp add: adj_update set_set_add nbrs_def del: n0)
  have "graph_adj ?g1 E \<noteq> None"
    using Cons.prems(1) by (simp add: a1 a0)
  then obtain s' where s': "map_of ?g1 E = Some s'"
    by (auto simp: graph_adj_def)
  then have sE: "graph_adj ?g1 E = Some (set s')"
    by (simp add: graph_adj_def)
  let ?g2 = "AList.update E (set_add i s') ?g1"
  have g2: "on_set E (set_add i) ?g1 = Inr ?g2"
    by (simp add: on_set_def s')
  have a2: "graph_adj ?g2 = (graph_adj ?g1)(E \<mapsto> insert i (set s'))"
    by (simp add: adj_update set_set_add)
  have E2: "graph_adj ?g2 E \<noteq> None"
    by (simp add: a2)
  from Cons.IH [OF E2] obtain g' where
    g': "forIdsToCreate E ids ?g2 = (None, g')"
    and adj': "\<And>a. graph_adj g' a =
       (if a = E then Some (nbrs ?g2 E \<union> set ids)
        else if a \<in> set ids then Some (insert E (nbrs ?g2 a))
        else graph_adj ?g2 a)"
    by blast
  have s'_set: "set s' = (if E = i then insert E (nbrs g i) else nbrs g E)"
    using sE Cons.prems unfolding a1 a0
    by (auto simp: nbrs_adj split: if_splits option.splits)
  have n2: "nbrs ?g2 a = (if a = E then insert i (set s')
      else if a = i then insert E (nbrs g i) else nbrs g a)" for a
    unfolding nbrs_adj [of ?g2] a2 a1 a0
    by (auto simp: nbrs_adj adj_update split: option.splits)
  have "forIdsToCreate E (i # ids) g = (None, g')"
    using g1 g2 g' by (simp add: Let_def)
  moreover have "graph_adj g' a =
       (if a = E then Some (nbrs g E \<union> set (i # ids))
        else if a \<in> set (i # ids) then Some (insert E (nbrs g a))
        else graph_adj g a)" for a
    unfolding adj' n2 s'_set
    by (auto simp: a2 a1 a0)
  ultimately show ?case by blast
qed

lemma updateLayerGraph_adj:
  assumes "\<forall>b \<in> nbrs g E. map_of g b \<noteq> None"
  shows "\<exists>g'. updateLayerGraph E N True g = (None, g') \<and>
    (\<forall>a. graph_adj g' a =
       (if a = E then Some (set N)
        else if a \<in> set N - nbrs g E then Some (insert E (nbrs g a))
        else if a \<in> nbrs g E - set N then map_option (\<lambda>S. S - {E}) (graph_adj g a)
        else graph_adj g a))"
proof -
  let ?g0 = "if map_of g E = None then AList.update E [] g else g"
  let ?prev = "case map_of ?g0 E of Some s \<Rightarrow> s | None \<Rightarrow> []"
  let ?del = "fold set_add (filter (\<lambda>i. i \<notin> set N) ?prev) []"
  let ?cre = "fold set_add (filter (\<lambda>i. i \<notin> set ?prev) N) []"
  have a0: "graph_adj ?g0 = (if map_of g E = None then (graph_adj g)(E \<mapsto> {}) else graph_adj g)"
    by (simp add: adj_update)
  have n0: "nbrs ?g0 a = nbrs g a" for a
    by (auto simp: nbrs_adj a0 graph_adj_def split: option.splits)
  have prev: "set ?prev = nbrs g E"
    using n0 [of E] unfolding nbrs_def by (simp split: option.splits)
  have sdel: "set ?del = nbrs g E - set N"
    unfolding set_fold_set_add using prev by auto
  have scre: "set ?cre = set N - nbrs g E"
    unfolding set_fold_set_add using prev by auto
  have E0: "graph_adj ?g0 E \<noteq> None"
    by (auto simp: a0 graph_adj_def)
  have k0: "\<forall>i \<in> set ?del. graph_adj ?g0 i \<noteq> None"
    unfolding sdel using assms by (auto simp: a0 graph_adj_def)
  from forIdsToDelete_adj [OF E0 k0] obtain g1 where
    g1: "forIdsToDelete E ?del ?g0 = (None, g1)"
    and a1: "\<And>a. graph_adj g1 a =
       map_option (\<lambda>S. S - (if a = E then set ?del else {}) - (if a \<in> set ?del then {E} else {}))
         (graph_adj ?g0 a)"
    by blast
  have E1: "graph_adj g1 E \<noteq> None"
    using E0 by (simp add: a1)
  from forIdsToCreate_adj [OF E1] obtain g' where
    g': "forIdsToCreate E ?cre g1 = (None, g')"
    and a': "\<And>a. graph_adj g' a =
       (if a = E then Some (nbrs g1 E \<union> set ?cre)
        else if a \<in> set ?cre then Some (insert E (nbrs g1 a))
        else graph_adj g1 a)"
    by blast
  have n1: "nbrs g1 a = nbrs g a - (if a = E then set ?del else {}) - (if a \<in> set ?del then {E} else {})" for a
    unfolding nbrs_adj [of g1] a1 using n0 [of a] unfolding nbrs_adj [of ?g0]
    by (cases "graph_adj ?g0 a") (simp_all add: nbrs_adj)
  have "updateLayerGraph E N True g = (None, g')"
    unfolding updateLayerGraph_def Let_def using g1 g' by simp
  moreover have "graph_adj g' a =
       (if a = E then Some (set N)
        else if a \<in> set N - nbrs g E then Some (insert E (nbrs g a))
        else if a \<in> nbrs g E - set N then map_option (\<lambda>S. S - {E}) (graph_adj g a)
        else graph_adj g a)" for a
  proof (cases "a = E")
    case True
    then show ?thesis
      unfolding a' n1 sdel scre by auto
  next
    case False
    then have "graph_adj ?g0 a = graph_adj g a"
      by (simp add: a0)
    with False show ?thesis
      unfolding a' n1 a1 sdel scre
      by (cases "graph_adj g a") (auto simp: option.map_ident)
  qed
  ultimately show ?thesis by blast
qed

lemma updateLayerGraph_nbrs:
  assumes "\<forall>b \<in> nbrs g E. map_of g b \<noteq> None"
    and "graph_symmetric g"
  obtains g' where "updateLayerGraph E N True g = (None, g')"
    and "\<And>a. nbrs g' a = (if a = E then set N
                          else if a \<in> set N then insert E (nbrs g a)
                          else nbrs g a - {E})"
    and "\<And>a. map_of g' a \<noteq> None \<longleftrightarrow> a = E \<or> a \<in> set N \<or> map_of g a \<noteq> None"
proof -
  from updateLayerGraph_adj [OF assms(1), of N] obtain g' where
    u: "updateLayerGraph E N True g = (None, g')"
    and a': "\<And>a. graph_adj g' a =
       (if a = E then Some (set N)
        else if a \<in> set N - nbrs g E then Some (insert E (nbrs g a))
        else if a \<in> nbrs g E - set N then map_option (\<lambda>S. S - {E}) (graph_adj g a)
        else graph_adj g a)"
    by blast
  have sym: "E \<in> nbrs g a \<longleftrightarrow> a \<in> nbrs g E" for a
    using assms(2) by (auto simp: graph_symmetric_def)
  have "nbrs g' a = (if a = E then set N
                          else if a \<in> set N then insert E (nbrs g a)
                          else nbrs g a - {E})" for a
    unfolding nbrs_adj [of g'] a' using sym [of a]
    by (cases "graph_adj g a") (auto simp: nbrs_adj)
  moreover have "map_of g' a \<noteq> None \<longleftrightarrow> a = E \<or> a \<in> set N \<or> map_of g a \<noteq> None" for a
    unfolding adj_None [symmetric] a'
    using assms(1) unfolding adj_None [symmetric] by (cases "graph_adj g a") auto
  ultimately show ?thesis
    using u that by blast
qed

lemma updateLayerGraph_inv:
  assumes "graph_symmetric g" and "graph_closed g" and "updateLayerGraph E N True g = (r, g')"
  shows "r = None \<and> graph_symmetric g' \<and> graph_closed g'"
proof -
  have c: "\<forall>b \<in> nbrs g E. map_of g b \<noteq> None"
    using assms(2) by (auto simp: graph_closed_def)
  from updateLayerGraph_nbrs [OF c assms(1), of N] obtain g'' where
    u: "updateLayerGraph E N True g = (None, g'')"
    and n: "\<And>a. nbrs g'' a = (if a = E then set N
                          else if a \<in> set N then insert E (nbrs g a)
                          else nbrs g a - {E})"
    and k: "\<And>a. map_of g'' a \<noteq> None \<longleftrightarrow> a = E \<or> a \<in> set N \<or> map_of g a \<noteq> None"
    by blast
  from u assms(3) have eq: "r = None" "g' = g''"
    by simp_all
  have sym: "a \<in> nbrs g b \<longleftrightarrow> b \<in> nbrs g a" for a b
    using assms(1) by (auto simp: graph_symmetric_def)
  have "graph_symmetric g''"
    unfolding graph_symmetric_def n using sym by auto
  moreover have "graph_closed g''"
    unfolding graph_closed_def n k using assms(2) unfolding graph_closed_def
    by (auto split: if_splits)
  ultimately show ?thesis
    using eq by simp
qed

lemma nbrs_deleteFromAreaCache:
  "nbrs (layersGraph (deleteFromAreaCache layerGroup st)) a =
     (if a \<in> dead_keys layerGroup (layersGraph st) then {}
      else nbrs (layersGraph st) a - dead_keys layerGroup (layersGraph st))"
  unfolding nbrs_adj adj_deleteFromAreaCache
  by (cases "graph_adj (layersGraph st) a") auto

lemma keys_deleteFromAreaCache:
  "map_of (layersGraph (deleteFromAreaCache layerGroup st)) a \<noteq> None \<longleftrightarrow>
     map_of (layersGraph st) a \<noteq> None \<and> a \<notin> dead_keys layerGroup (layersGraph st)"
  unfolding adj_None [symmetric] adj_deleteFromAreaCache
  by (cases "graph_adj (layersGraph st) a") auto

lemma deleteFromAreaCache_inv:
  assumes "graph_symmetric (layersGraph st)" and "graph_closed (layersGraph st)"
  shows "graph_symmetric (layersGraph (deleteFromAreaCache layerGroup st))"
    and "graph_closed (layersGraph (deleteFromAreaCache layerGroup st))"
proof -
  have sym: "a \<in> nbrs (layersGraph st) b \<longleftrightarrow> b \<in> nbrs (layersGraph st) a" for a b
    using assms(1) by (auto simp: graph_symmetric_def)
  have nk: "b \<in> nbrs (layersGraph st) a \<Longrightarrow> map_of (layersGraph st) a \<noteq> None" for a b
    by (auto simp: nbrs_def split: option.splits)
  have dk: "a \<in> dead_keys layerGroup (layersGraph st) \<longleftrightarrow>
      map_of (layersGraph st) a \<noteq> None \<and> getLayer layerGroup a = None" for a
    by (auto simp: dead_keys_def map_of_eq_None_iff)
  show "graph_symmetric (layersGraph (deleteFromAreaCache layerGroup st))"
    unfolding graph_symmetric_def nbrs_deleteFromAreaCache using sym nk
    by (auto simp: dk)
  show "graph_closed (layersGraph (deleteFromAreaCache layerGroup st))"
    unfolding graph_closed_def nbrs_deleteFromAreaCache keys_deleteFromAreaCache
    using assms(2) unfolding graph_closed_def by (auto split: if_splits)
qed

lemma cache_grows_refl: "cache_grows g layerGroup c c"
  by (simp add: cache_grows_def)

lemma cache_grows_trans:
  "cache_grows g layerGroup c c' \<Longrightarrow> cache_grows g layerGroup c' c'' \<Longrightarrow> cache_grows g layerGroup c c''"
  unfolding cache_grows_def by blast

lemma getAreaFromCache_grows:
  assumes "getAreaFromCache T layerID layerGroup c = (r, c')" and "map_of g layerID \<noteq> None"
  shows "cache_grows g layerGroup c c'"
  using assms
  by (auto simp: getAreaFromCache_def cache_grows_def Let_def split: option.splits if_splits)

lemma graph_closedD:
  assumes "graph_closed g" and "map_of g a = Some s" and "i \<in> set s"
  shows "map_of g i \<noteq> None"
proof -
  have "i \<in> nbrs g a"
    using assms(2,3) by (simp add: nbrs_def)
  with assms(1) show ?thesis
    unfolding graph_closed_def by blast
qed

lemma traversal_cache_grows:
  "graph_closed g \<Longrightarrow> map_of g layerID \<noteq> None \<Longrightarrow>
     cache_grows g layerGroup (fst cc) (fst (snd (recursiveGetTotalArea T g layerID layerGroup cc)))"
  "graph_closed g \<Longrightarrow> \<forall>i \<in> set ids. map_of g i \<noteq> None \<Longrightarrow>
     cache_grows g layerGroup (fst cc) (fst (snd (forOtherLayerIDs T g layerGroup ids totalArea cc)))"
proof (induction T g layerID layerGroup cc and T g layerGroup ids totalArea cc
    rule: recursiveGetTotalArea_forOtherLayerIDs.induct)
  case (1 T g layerID layerGroup c checkedLayerIDs)
  show ?case
  proof (cases "layerID \<in> set checkedLayerIDs")
    case True
    then show ?thesis
      by (simp add: cache_grows_refl)
  next
    case False
    obtain r c' where ga: "getAreaFromCache T layerID layerGroup c = (r, c')"
      by fastforce
    have gr: "cache_grows g layerGroup c c'"
      using getAreaFromCache_grows [OF ga "1.prems"(2)] .
    show ?thesis
    proof (cases r)
      case (Inl e)
      then show ?thesis
        using False ga gr by simp
    next
      case (Inr a)
      from "1.prems"(2) obtain others where o: "map_of g layerID = Some others"
        by blast
      have "\<forall>i \<in> set others. map_of g i \<noteq> None"
        using graph_closedD [OF "1.prems"(1) o] by blast
      from "1.IH" [OF False ga [symmetric] Inr o "1.prems"(1) this]
      have "cache_grows g layerGroup c'
         (fst (snd (forOtherLayerIDs T g layerGroup others a (c', checkedLayerIDs @ [layerID]))))"
        by simp
      with gr show ?thesis
        using False ga Inr o by (simp add: cache_grows_trans)
    qed
  qed
next
  case (2 T g layerGroup totalArea c checkedLayerIDs)
  show ?case
    by (simp add: cache_grows_refl)
next
  case (3 T g layerGroup otherLayerID rest totalArea c checkedLayerIDs)
  obtain r c' ch' where rc:
    "recursiveGetTotalArea T g otherLayerID layerGroup (c, checkedLayerIDs) = (r, c', ch')"
    by (metis prod_cases3)
  have g1: "cache_grows g layerGroup c c'"
    using "3.IH"(1) [OF "3.prems"(1)] "3.prems"(2) rc by simp
  show ?case
  proof (cases r)
    case (Inl e)
    then show ?thesis
      using rc g1 by simp
  next
    case (Inr a)
    have "cache_grows g layerGroup c'
       (fst (snd (forOtherLayerIDs T g layerGroup rest (js_plus T totalArea a) (c', ch'))))"
      using "3.IH"(2) [OF rc [symmetric] Inr refl "3.prems"(1)] "3.prems"(2) by simp
    with g1 show ?thesis
      using rc Inr by (simp add: cache_grows_trans)
  qed
qed

lemma getLayer_None: "getLayer layerGroup k = None \<longleftrightarrow> k \<notin> leaflet_id ` set layerGroup"
  by (auto simp: getLayer_def find_None_iff)

lemma getOverlappingLayerIds_eachLayer_subset:
  "getOverlappingLayerIds_eachLayer T l buf ls acc = Inr ids \<Longrightarrow>
     set ids \<subseteq> set acc \<union> (leaflet_id ` set ls - {leaflet_id l})"
proof (induction ls arbitrary: acc)
  case Nil
  then show ?case by simp
next
  case (Cons otherLayer rest)
  then show ?case
    by (fastforce simp: compareLayers_def set_set_add split: if_splits sum.splits)
qed

lemma getOverlappingLayerIds_subset:
  "getOverlappingLayerIds T l layerGroup = Inr ids \<Longrightarrow>
     set ids \<subseteq> leaflet_id ` set layerGroup - {leaflet_id l}"
  using getOverlappingLayerIds_eachLayer_subset [of T l _ layerGroup "[]" ids]
  by (simp add: getOverlappingLayerIds_def)

lemma snd_fastOverlap_callback:
  "snd (fastOverlap_callback T layerGroup entity st) = snd (fastOverlap_totalArea T layerGroup entity st)"
  by (simp add: fastOverlap_callback_def split: prod.splits sum.splits)

lemma deleteFromAreaCache_state_inv:
  assumes "state_inv st"
  shows "state_inv (deleteFromAreaCache layerGroup st)"
proof -
  have "\<forall>k. areaCache (deleteFromAreaCache layerGroup st) k \<noteq> None \<longrightarrow>
      map_of (layersGraph (deleteFromAreaCache layerGroup st)) k \<noteq> None"
    unfolding keys_deleteFromAreaCache cache_deleteFromAreaCache
    using assms unfolding state_inv_def by (auto split: if_splits)
  then show ?thesis
    using assms deleteFromAreaCache_inv [of st layerGroup]
    unfolding state_inv_def by blast
qed

text \<open>The shape of the state an evaluation leaves behind.\<close>

lemma fastOverlap_totalArea_cases:
  fixes T :: "('f, 'b) Turf" and layerGroup :: "'f LayerGroup" and entity :: "'f MapEntity"
  assumes "state_inv st"
  defines "st2 \<equiv> after_gc layerGroup st"
  defines "E \<equiv> leaflet_id (entity_layer entity)"
  obtains (unsupported) e where
      "getOverlappingLayerIds T (entity_layer entity) layerGroup = Inl e"
      "fastOverlap_totalArea T layerGroup entity st = (Inl e, st2)"
  | (traversed) N g' r c ch where
      "getOverlappingLayerIds T (entity_layer entity) layerGroup = Inr N"
      "updateLayerGraph E N True (layersGraph st2) = (None, g')"
      "recursiveGetTotalArea T g' E layerGroup (areaCache st2, []) = (r, c, ch)"
      "fastOverlap_totalArea T layerGroup entity st = (r, st2\<lparr>layersGraph := g', areaCache := c\<rparr>)"
proof (cases "getOverlappingLayerIds T (entity_layer entity) layerGroup")
  case (Inl e)
  then have "fastOverlap_totalArea T layerGroup entity st = (Inl e, st2)"
    by (simp add: fastOverlap_totalArea_def st2_def after_gc_def Let_def)
  with Inl show ?thesis
    by (rule unsupported)
next
  case (Inr N)
  have "state_inv (st\<lparr>hasRunOnce := True, pik := pik st + 1\<rparr>)"
    using assms(1) by (simp add: state_inv_def)
  then have inv2: "state_inv st2"
    unfolding st2_def after_gc_def by (rule deleteFromAreaCache_state_inv)
  obtain r0 g' where u0: "updateLayerGraph E N True (layersGraph st2) = (r0, g')"
    by fastforce
  from updateLayerGraph_inv [OF _ _ u0] inv2 have "r0 = None"
    by (simp add: state_inv_def)
  with u0 have u: "updateLayerGraph E N True (layersGraph st2) = (None, g')"
    by simp
  obtain r c ch where t: "recursiveGetTotalArea T g' E layerGroup (areaCache st2, []) = (r, c, ch)"
    by (metis prod_cases3)
  have "fastOverlap_totalArea T layerGroup entity st = (r, st2\<lparr>layersGraph := g', areaCache := c\<rparr>)"
    using Inr u t by (simp add: fastOverlap_totalArea_def st2_def after_gc_def E_def Let_def)
  with Inr u t show ?thesis
    by (rule traversed)
qed

lemma fastOverlap_totalArea_state_inv:
  assumes "state_inv st"
  shows "state_inv (snd (fastOverlap_totalArea T layerGroup entity st))"
proof -
  let ?st2 = "after_gc layerGroup st"
  let ?E = "leaflet_id (entity_layer entity)"
  have "state_inv (st\<lparr>hasRunOnce := True, pik := pik st + 1\<rparr>)"
    using assms(1) by (simp add: state_inv_def)
  then have inv2: "state_inv ?st2"
    unfolding after_gc_def by (rule deleteFromAreaCache_state_inv)
  from assms show ?thesis
  proof (cases rule: fastOverlap_totalArea_cases [where T = T and layerGroup = layerGroup and entity = entity])
    case (unsupported e)
    then show ?thesis
      using inv2 by simp
  next
    case (traversed N g' r c ch)
    have c2: "\<forall>b \<in> nbrs (layersGraph ?st2) ?E. map_of (layersGraph ?st2) b \<noteq> None"
      using inv2 by (auto simp: state_inv_def graph_closed_def)
    from updateLayerGraph_nbrs [OF c2, of N] inv2 traversed(2) have
      k: "\<And>a. map_of g' a \<noteq> None \<longleftrightarrow> a = ?E \<or> a \<in> set N \<or> map_of (layersGraph ?st2) a \<noteq> None"
      unfolding state_inv_def by (metis prod.inject)
    from updateLayerGraph_inv [OF _ _ traversed(2)] inv2 have sc: "graph_symmetric g'" "graph_closed g'"
      by (simp_all add: state_inv_def)
    have "cache_grows g' layerGroup (areaCache ?st2) c"
      using traversal_cache_grows(1) [OF sc(2), of ?E layerGroup "(areaCache ?st2, [])" T]
        traversed(3) k by simp
    then have "\<forall>k. c k \<noteq> None \<longrightarrow> map_of g' k \<noteq> None"
      using inv2 k unfolding cache_grows_def state_inv_def by blast
    then show ?thesis
      using traversed(4) sc by (simp add: state_inv_def)
  qed
qed

lemma initial_state_inv: "state_inv initial_state"
  by (simp add: state_inv_def initial_state_def graph_symmetric_def graph_closed_def nbrs_def)

lemma run_state_inv: "state_inv st \<Longrightarrow> state_inv (run T evs st)"
proof (induction evs arbitrary: st)
  case Nil
  then show ?case by simp
next
  case (Cons ev evs)
  obtain layerGroup entity where ev: "ev = (layerGroup, entity)"
    by fastforce
  show ?case
    unfolding ev run.simps snd_fastOverlap_callback
    by (intro Cons.IH fastOverlap_totalArea_state_inv Cons.prems)
qed

section \<open>Invariants of the overlap graph and the area cache\<close>

text \<open>
  Claim C2.  After any sequence of evaluations of the cluster rule, started
  from the empty graph, the overlap graph is symmetric: for all ids \<open>a\<close> and
  \<open>b\<close>, \<open>a\<close> is in \<^verbatim>\<open>graph[b]\<close> exactly when \<open>b\<close> is in \<^verbatim>\<open>graph[a]\<close>.
\<close>

theorem overlap_graph_symmetric:
  "a \<in> nbrs (layersGraph (run T evs initial_state)) b \<longleftrightarrow>
   b \<in> nbrs (layersGraph (run T evs initial_state)) a"
  using run_state_inv [OF initial_state_inv, of T evs]
  unfolding state_inv_def graph_symmetric_def by blast

text \<open>
  Claim C5, as amended.  After any sequence of evaluations, an evaluation for
  an entity other than \<open>d\<close> on a layer group that no longer holds \<open>d\<close> leaves
  no area-cache entry and no graph entry for \<open>d\<close>, and \<open>d\<close> in no neighbour set,
  whether the evaluation returns or raises.
\<close>

theorem removed_id_purged:
  fixes T :: "('f, 'b) Turf"
  assumes "getLayer layerGroup d = None" and "leaflet_id (entity_layer entity) \<noteq> d"
  shows "areaCache (snd (fastOverlap_callback T layerGroup entity (run T evs initial_state))) d = None
     \<and> map_of (layersGraph (snd (fastOverlap_callback T layerGroup entity (run T evs initial_state)))) d = None
     \<and> (\<forall>a. d \<notin> nbrs (layersGraph (snd (fastOverlap_callback T layerGroup entity (run T evs initial_state)))) a)"
proof -
  let ?st = "run T evs initial_state"
  let ?st2 = "after_gc layerGroup ?st"
  have inv: "state_inv ?st"
    by (rule run_state_inv [OF initial_state_inv])
  have "state_inv (?st\<lparr>hasRunOnce := True, pik := pik ?st + 1\<rparr>)"
    using inv by (simp add: state_inv_def)
  then have inv2: "state_inv ?st2"
    unfolding after_gc_def by (rule deleteFromAreaCache_state_inv)
  have dk: "map_of (layersGraph ?st) d \<noteq> None \<Longrightarrow> d \<in> dead_keys layerGroup (layersGraph ?st)"
    using assms(1) by (auto simp: dead_keys_def map_of_eq_None_iff)
  have k2: "map_of (layersGraph ?st2) d = None"
    using keys_deleteFromAreaCache [of layerGroup "?st\<lparr>hasRunOnce := True, pik := pik ?st + 1\<rparr>" d] dk
    by (auto simp: after_gc_def)
  have n2: "d \<notin> nbrs (layersGraph ?st2) a" for a
    using inv2 k2 unfolding state_inv_def graph_closed_def by blast
  have c2: "areaCache ?st2 d = None"
    using inv2 k2 unfolding state_inv_def by blast
  let ?st' = "snd (fastOverlap_totalArea T layerGroup entity ?st)"
  from inv have "areaCache ?st' d = None \<and> map_of (layersGraph ?st') d = None
      \<and> (\<forall>a. d \<notin> nbrs (layersGraph ?st') a)"
  proof (cases rule: fastOverlap_totalArea_cases [where T = T and layerGroup = layerGroup and entity = entity])
    case (unsupported e)
    then show ?thesis
      using k2 n2 c2 by simp
  next
    case (traversed N g' r c ch)
    let ?E = "leaflet_id (entity_layer entity)"
    have dN: "d \<notin> set N"
      using getOverlappingLayerIds_subset [OF traversed(1)] assms(1) by (auto simp: getLayer_None)
    have cl: "\<forall>b \<in> nbrs (layersGraph ?st2) ?E. map_of (layersGraph ?st2) b \<noteq> None"
      using inv2 by (auto simp: state_inv_def graph_closed_def)
    from updateLayerGraph_nbrs [OF cl, of N] inv2 traversed(2) have
      n: "\<And>a. nbrs g' a = (if a = ?E then set N
                          else if a \<in> set N then insert ?E (nbrs (layersGraph ?st2) a)
                          else nbrs (layersGraph ?st2) a - {?E})"
      and k: "\<And>a. map_of g' a \<noteq> None \<longleftrightarrow> a = ?E \<or> a \<in> set N \<or> map_of (layersGraph ?st2) a \<noteq> None"
      unfolding state_inv_def by (metis prod.inject)+
    from updateLayerGraph_inv [OF _ _ traversed(2)] inv2 have sc: "graph_closed g'"
      by (simp_all add: state_inv_def)
    have "cache_grows g' layerGroup (areaCache ?st2) c"
      using traversal_cache_grows(1) [OF sc, of ?E layerGroup "(areaCache ?st2, [])" T]
        traversed(3) k by simp
    then have c': "c d = None"
      using c2 assms(1) unfolding cache_grows_def by blast
    have k': "map_of g' d = None"
      using k [of d] k2 dN assms(2) by blast
    have n': "d \<notin> nbrs g' a" for a
      unfolding n using n2 dN assms(2) by auto
    show ?thesis
      using traversed(4) c' k' n' by simp
  qed
  then show ?thesis
    unfolding snd_fastOverlap_callback .
qed

theorem removed_id_purged_witness:
  "getLayer [L_example 2] 1 = None \<and> leaflet_id (entity_layer \<lparr>entity_layer = L_example 2\<rparr>) \<noteq> 1
   \<and> map_of (layersGraph (run T_example [([L_example 1, L_example 2], \<lparr>entity_layer = L_example 1\<rparr>)]
                  initial_state)) 1 = Some [2]
   \<and> map_of (layersGraph (snd (fastOverlap_callback T_example [L_example 2] \<lparr>entity_layer = L_example 2\<rparr>
       (run T_example [([L_example 1, L_example 2], \<lparr>entity_layer = L_example 1\<rparr>)] initial_state)))) 1 = None"
proof -
  have h1: "getLayer [L_example 2] 1 = None"
    by (simp add: getLayer_def L_example_def)
  have h2: "leaflet_id (entity_layer \<lparr>entity_layer = L_example 2\<rparr>) \<noteq> 1"
    by (simp add: L_example_def)
  have h3: "map_of (layersGraph (run T_example [([L_example 1, L_example 2], \<lparr>entity_layer = L_example 1\<rparr>)]
                  initial_state)) 1 = Some [2]"
    by code_simp
  from removed_id_purged [OF h1 h2, of T_example "[([L_example 1, L_example 2], \<lparr>entity_layer = L_example 1\<rparr>)]"]
  show ?thesis
    using h1 h2 h3 by blast
qed

text \<open>
  Claim C5 as stated fails when the evaluation is the one of the removed
  entity itself: layer 1 is evaluated with layers 1 and 2 in the group, then
  removed from the group and evaluated again.  The garbage collection purges
  id 1, updateLayerGraph then gives it an entry again and puts it back into
  the neighbour set of 2.
\<close>

theorem removed_id_reinserted_counterexample:
  "getLayer [L_example 2] 1 = None
   \<and> map_of (layersGraph (snd (fastOverlap_callback T_example [L_example 2] \<lparr>entity_layer = L_example 1\<rparr>
       (run T_example [([L_example 1, L_example 2], \<lparr>entity_layer = L_example 1\<rparr>)] initial_state)))) 1 = Some [2]
   \<and> 1 \<in> nbrs (layersGraph (snd (fastOverlap_callback T_example [L_example 2] \<lparr>entity_layer = L_example 1\<rparr>
       (run T_example [([L_example 1, L_example 2], \<lparr>entity_layer = L_example 1\<rparr>)] initial_state)))) 2"
  by code_simp

section \<open>The decision of the cluster rule\<close>

lemma fastOverlap_callback_Inr:
  assumes "fastOverlap_totalArea T layerGroup entity st = (Inr totalArea, st')"
  shows "fastOverlap_callback T layerGroup entity st = (Inr (clusterResult totalArea), st')"
  using assms by (simp add: fastOverlap_callback_def)

text \<open>
  Claim C4.  When the evaluation computes the cluster total \<open>totalArea\<close>, the
  rule is triggered exactly when \<open>totalArea\<close> is strictly greater than
  \<open>MAX_CLUSTER_SIZE = 1250\<close>; then its short message is "Cluster too big: "
  followed by the rounded total and "m" with the superscript two.  At 1250 and
  below the rule is not triggered and its short message stays as it was.
\<close>

theorem cluster_threshold:
  assumes "fastOverlap_totalArea T layerGroup entity st = (Inr totalArea, st')"
  shows "\<exists>r'. checkRule (fastOverlap T layerGroup sev shortMsg msg) entity st = (Inr r', st')
     \<and> MAX_CLUSTER_SIZE = 1250
     \<and> (r_triggered r' \<longleftrightarrow> totalArea > 1250)
     \<and> (totalArea > 1250 \<longrightarrow>
          r_shortMessage r' = ''Cluster too big: '' @ toString (Math_round totalArea) @ ''m'' @ [CHR 0xB2])
     \<and> (totalArea \<le> 1250 \<longrightarrow> r_shortMessage r' = shortMsg)
     \<and> r_message r' = msg
     \<and> severity r' = (if totalArea > 1250 then sev else 0)"
proof -
  have cb: "r_callback (fastOverlap T layerGroup sev shortMsg msg) entity st =
      (Inr (clusterResult totalArea), st')"
    using fastOverlap_callback_Inr [OF assms] by (simp add: fastOverlap_def newRule_def)
  show ?thesis
    unfolding checkRule_Inr [OF cb]
    by (simp add: clusterResult_def MAX_CLUSTER_SIZE_def fastOverlap_def newRule_def severity_def)
qed

theorem cluster_threshold_witness:
  "\<exists>r'. fst (checkRule (fastOverlap T_example [L_example 1, L_example 2] 3 ''yo'' ''yooo'')
             \<lparr>entity_layer = L_example 1\<rparr> initial_state) = Inr r'
     \<and> r_triggered r' \<and> r_shortMessage r' = ''Cluster too big: 1300m'' @ [CHR 0xB2]
     \<and> severity r' = 3"
proof -
  let ?lg = "[L_example 1, L_example 2]"
  let ?e = "\<lparr>entity_layer = L_example 1\<rparr>"
  have "fst (fastOverlap_totalArea T_example ?lg ?e initial_state) = Inr 1300"
    by code_simp
  then have h: "fastOverlap_totalArea T_example ?lg ?e initial_state =
      (Inr 1300, snd (fastOverlap_totalArea T_example ?lg ?e initial_state))"
    by (metis prod.collapse)
  have t: "toString (Math_round 1300) = ''1300''"
    by (simp add: Math_round_def toString_def)
  from cluster_threshold [OF h, of 3 "''yo''" "''yooo''"] obtain r' where
    "checkRule (fastOverlap T_example ?lg 3 ''yo'' ''yooo'') ?e initial_state =
       (Inr r', snd (fastOverlap_totalArea T_example ?lg ?e initial_state))"
    "r_triggered r' \<longleftrightarrow> (1300 :: real) > 1250"
    "(1300 :: real) > 1250 \<longrightarrow>
       r_shortMessage r' = ''Cluster too big: '' @ toString (Math_round 1300) @ ''m'' @ [CHR 0xB2]"
    "severity r' = (if (1300 :: real) > 1250 then 3 else 0)"
    by (elim exE conjE)
  then show ?thesis
    by (intro exI [of _ r']) (simp add: t)
qed

section \<open>The incremental edge diff\<close>

text \<open>
  Claim C6.  On a symmetric and closed graph (every graph the evaluations
  reach is one), the incremental diff of updateLayerGraph for entity \<open>E\<close>, whose
  recorded neighbour set is \<open>nbrs g E\<close> and whose new one is \<open>N2\<close>, ends without
  an exception and leaves exactly the adjacency that discarding all edges of
  \<open>E\<close> and inserting \<open>N2\<close> fresh gives.
\<close>

theorem edge_diff_is_wholesale_replacement:
  assumes "graph_symmetric g" and "graph_closed g"
  shows "\<exists>g'. updateLayerGraph E N2 True g = (None, g')
     \<and> graph_adj g' = wholesale_replacement E (set N2) (graph_adj g)"
proof -
  have c: "\<forall>b \<in> nbrs g E. map_of g b \<noteq> None"
    using assms(2) by (auto simp: graph_closed_def)
  from updateLayerGraph_adj [OF c, of N2] obtain g' where
    u: "updateLayerGraph E N2 True g = (None, g')"
    and a': "\<And>a. graph_adj g' a =
       (if a = E then Some (set N2)
        else if a \<in> set N2 - nbrs g E then Some (insert E (nbrs g a))
        else if a \<in> nbrs g E - set N2 then map_option (\<lambda>S. S - {E}) (graph_adj g a)
        else graph_adj g a)"
    by blast
  have sym: "E \<in> nbrs g a \<longleftrightarrow> a \<in> nbrs g E" for a
    using assms(1) by (auto simp: graph_symmetric_def)
  have "graph_adj g' a = wholesale_replacement E (set N2) (graph_adj g) a" for a
    unfolding a' wholesale_replacement_def insert_fresh_def discard_edges_def
    using sym [of a]
    by (cases "graph_adj g a") (auto simp: nbrs_adj)
  with u show ?thesis
    by blast
qed

theorem edge_diff_is_wholesale_replacement_witness:
  "graph_symmetric [(1, [2, 3]), (2, [1]), (3, [1])] \<and> graph_closed [(1, [2, 3]), (2, [1]), (3, [1])]
   \<and> fst (updateLayerGraph 1 [3, 4] True [(1, [2, 3]), (2, [1]), (3, [1])]) = None
   \<and> graph_adj (snd (updateLayerGraph 1 [3, 4] True [(1, [2, 3]), (2, [1]), (3, [1])]))
        = wholesale_replacement 1 {3, 4} (graph_adj [(1, [2, 3]), (2, [1]), (3, [1])])"
proof -
  let ?g = "[(1, [2, 3]), (2, [1]), (3, [1])] :: graph"
  have n: "nbrs ?g a = (if a = 1 then {2, 3} else if a = 2 then {1} else if a = 3 then {1} else {})" for a
    by (simp add: nbrs_def)
  have h1: "graph_symmetric ?g"
    unfolding graph_symmetric_def n by auto
  have h2: "graph_closed ?g"
    unfolding graph_closed_def n by auto
  from edge_diff_is_wholesale_replacement [OF h1 h2, of 1 "[3, 4]"] show ?thesis
    using h1 h2 by auto
qed

section \<open>Neighbour discovery\<close>

lemma getOverlappingLayerIds_eachLayer_set:
  assumes "getOverlappingLayerIds_eachLayer T l buf ls acc = Inr ids"
  shows "set ids = set acc \<union>
     {leaflet_id otherLayer | otherLayer. otherLayer \<in> set ls \<and> \<not> compareLayers l otherLayer
        \<and> (\<exists>p. getLayerPolygon otherLayer = Inr p \<and> turf_booleanOverlap T buf p)}"
  using assms
proof (induction ls arbitrary: acc)
  case Nil
  then show ?case by simp
next
  case (Cons otherLayer rest)
  show ?case
  proof (cases "compareLayers l otherLayer")
    case True
    with Cons.prems have "getOverlappingLayerIds_eachLayer T l buf rest acc = Inr ids"
      by simp
    from Cons.IH [OF this] True show ?thesis
      by auto
  next
    case nc: False
    show ?thesis
    proof (cases "getLayerPolygon otherLayer")
      case (Inl e)
      with Cons.prems nc show ?thesis
        by simp
    next
      case (Inr p)
      show ?thesis
      proof (cases "turf_booleanOverlap T buf p")
        case True
        with Cons.prems nc Inr have
          "getOverlappingLayerIds_eachLayer T l buf rest (set_add (leaflet_id otherLayer) acc) = Inr ids"
          by simp
        from Cons.IH [OF this] nc Inr True show ?thesis
          by (auto simp: set_set_add)
      next
        case False
        with Cons.prems nc Inr have "getOverlappingLayerIds_eachLayer T l buf rest acc = Inr ids"
          by simp
        from Cons.IH [OF this] nc Inr False show ?thesis
          by auto
      qed
    qed
  qed
qed

lemma getOverlappingLayerIds_eachLayer_Inl:
  "(\<exists>e. getOverlappingLayerIds_eachLayer T l buf ls acc = Inl e) \<longleftrightarrow>
     (\<exists>otherLayer \<in> set ls. \<not> compareLayers l otherLayer \<and> toGeoJSON otherLayer = OtherGeoJSON)"
proof (induction ls arbitrary: acc)
  case Nil
  show ?case by simp
next
  case (Cons otherLayer rest)
  show ?case
    by (cases "toGeoJSON otherLayer")
      (auto simp: Cons.IH getLayerPolygon_def split: list.splits)
qed

lemma getOverlappingLayerIds_eachLayer_error:
  "getOverlappingLayerIds_eachLayer T l buf ls acc = Inl e \<Longrightarrow> e = UnsupportedGeometryType"
proof (induction ls arbitrary: acc)
  case Nil
  then show ?case by simp
next
  case (Cons otherLayer rest)
  then show ?case
    by (cases "toGeoJSON otherLayer")
      (auto simp: getLayerPolygon_def split: if_splits list.splits)
qed

text \<open>
  Claim C7, as amended.  In the neighbour discovery of the cluster rule a
  feature collection stands for its first member feature: an id is among the
  neighbours of the subject exactly when the layer group holds another layer
  with that id whose geometry is a feature overlapping the buffered subject,
  or a feature collection whose first member (\<^verbatim>\<open>features[0]\<close>, \<^verbatim>\<open>undefined\<close>
  for an empty collection) does.
\<close>

theorem feature_collection_first_member:
  assumes "getOverlappingLayerIds T l layerGroup = Inr ids"
  shows "k \<in> set ids \<longleftrightarrow>
     (\<exists>otherLayer \<in> set layerGroup. leaflet_id otherLayer = k \<and> k \<noteq> leaflet_id l \<and>
        (case toGeoJSON otherLayer of
           Feature geometry \<Rightarrow>
             turf_booleanOverlap T (turf_buffer T (toGeoJSON l) FIRE_BUFFER_IN_METER) (Some geometry)
         | FeatureCollection features \<Rightarrow>
             turf_booleanOverlap T (turf_buffer T (toGeoJSON l) FIRE_BUFFER_IN_METER)
               (case features of [] \<Rightarrow> None | f # _ \<Rightarrow> Some f)
         | OtherGeoJSON \<Rightarrow> False))"
proof -
  let ?buf = "turf_buffer T (toGeoJSON l) FIRE_BUFFER_IN_METER"
  have pol: "(\<exists>p. getLayerPolygon otherLayer = Inr p \<and> turf_booleanOverlap T ?buf p) \<longleftrightarrow>
      (case toGeoJSON otherLayer of
           Feature geometry \<Rightarrow> turf_booleanOverlap T ?buf (Some geometry)
         | FeatureCollection features \<Rightarrow>
             turf_booleanOverlap T ?buf (case features of [] \<Rightarrow> None | f # _ \<Rightarrow> Some f)
         | OtherGeoJSON \<Rightarrow> False)" for otherLayer :: "'a Layer"
    by (cases "toGeoJSON otherLayer") (simp_all add: getLayerPolygon_def)
  from assms have "getOverlappingLayerIds_eachLayer T l ?buf layerGroup [] = Inr ids"
    by (simp add: getOverlappingLayerIds_def)
  from getOverlappingLayerIds_eachLayer_set [OF this] show ?thesis
    unfolding pol by (auto simp: compareLayers_def)
qed

theorem feature_collection_first_member_witness:
  "getOverlappingLayerIds T_example (L_example 1) [L_example 1, L_example 2, M_example] = Inr [2]
   \<and> (2 \<in> set [2 :: nat] \<longleftrightarrow>
     (\<exists>otherLayer \<in> set [L_example 1, L_example 2, M_example].
        leaflet_id otherLayer = 2 \<and> 2 \<noteq> leaflet_id (L_example 1) \<and>
        (case toGeoJSON otherLayer of
           Feature geometry \<Rightarrow>
             turf_booleanOverlap T_example
               (turf_buffer T_example (toGeoJSON (L_example 1)) FIRE_BUFFER_IN_METER) (Some geometry)
         | FeatureCollection features \<Rightarrow>
             turf_booleanOverlap T_example
               (turf_buffer T_example (toGeoJSON (L_example 1)) FIRE_BUFFER_IN_METER)
               (case features of [] \<Rightarrow> None | f # _ \<Rightarrow> Some f)
         | OtherGeoJSON \<Rightarrow> False)))"
proof -
  have h: "getOverlappingLayerIds T_example (L_example 1) [L_example 1, L_example 2, M_example] = Inr [2]"
    by code_simp
  from feature_collection_first_member [OF h, of 2] h show ?thesis
    by blast
qed

text \<open>
  Claim C7 as stated fails: the second member feature of the collection of
  layer 5 overlaps the buffered layer 1, the first does not, and layer 5 is not
  among the neighbours of layer 1.
\<close>

theorem feature_collection_any_member_counterexample:
  "toGeoJSON M_example = FeatureCollection [7, 2]
   \<and> turf_booleanOverlap T_example
        (turf_buffer T_example (toGeoJSON (L_example 1)) FIRE_BUFFER_IN_METER) (Some 2)
   \<and> getOverlappingLayerIds T_example (L_example 1) [L_example 1, M_example] = Inr []
   \<and> leaflet_id M_example \<notin> set []"
  by code_simp

section \<open>Geometry values of an unsupported shape\<close>

lemma fastOverlap_raises_unsupported:
  assumes "otherLayer \<in> set layerGroup"
    and "leaflet_id otherLayer \<noteq> leaflet_id (entity_layer entity)"
    and "toGeoJSON otherLayer = OtherGeoJSON"
  shows "fst (fastOverlap_callback T layerGroup entity st) = Inl UnsupportedGeometryType"
proof -
  let ?buf = "turf_buffer T (toGeoJSON (entity_layer entity)) FIRE_BUFFER_IN_METER"
  from assms have "\<exists>e. getOverlappingLayerIds_eachLayer T (entity_layer entity) ?buf layerGroup [] = Inl e"
    unfolding getOverlappingLayerIds_eachLayer_Inl compareLayers_def by (metis (no_types))
  then obtain e where e: "getOverlappingLayerIds_eachLayer T (entity_layer entity) ?buf layerGroup [] = Inl e"
    by blast
  from getOverlappingLayerIds_eachLayer_error [OF e] e
  have "getOverlappingLayerIds T (entity_layer entity) layerGroup = Inl UnsupportedGeometryType"
    by (simp add: getOverlappingLayerIds_def)
  then show ?thesis
    by (simp add: fastOverlap_callback_def fastOverlap_totalArea_def Let_def)
qed

text \<open>
  Claim C8 holds for the incremental rule and fails for the naive one.  At
  the layer group of layer 1 and a layer whose geometry value is neither a
  feature nor a feature collection, the incremental callback raises
  "Unsupported geometry type", and the naive callback returns a result: it
  skips the layer silently.
\<close>

theorem naive_skips_unsupported_geometry:
  "toGeoJSON B_example = OtherGeoJSON
   \<and> fst (fastOverlap_callback T_example [L_example 1, B_example] \<lparr>entity_layer = L_example 1\<rparr> initial_state)
       = Inl UnsupportedGeometryType
   \<and> fst (isBufferOverlappingRecursive_callback T_example [L_example 1, B_example]
            \<lparr>entity_layer = L_example 1\<rparr> initial_state)
       = Inr \<lparr>triggered = False, shortMessage = None, message = None\<rparr>"
  by code_simp

section \<open>Adding up numbers\<close>

lemma adds_up_subst:
  assumes "adds_up add K v" and "u \<in># K" and "adds_up add M u"
  shows "adds_up add (K - {#u#} + M) v"
  using assms
proof (induction rule: adds_up.induct)
  case zero
  then show ?case by simp
next
  case (one a)
  then show ?case by simp
next
  case (plus K1 u1 K2 u2)
  from plus.prems(1) consider "u \<in># K1" | "u \<in># K2"
    by auto
  then show ?case
  proof cases
    case 1
    from plus.IH(1) [OF 1 plus.prems(2)] plus.hyps(2)
    have "adds_up add ((K1 - {#u#} + M) + K2) (add u1 u2)"
      by (rule adds_up.plus)
    moreover have "(K1 - {#u#} + M) + K2 = K1 + K2 - {#u#} + M"
      using 1 by (simp add: ac_simps)
    ultimately show ?thesis
      by simp
  next
    case 2
    from plus.hyps(1) plus.IH(2) [OF 2 plus.prems(2)]
    have "adds_up add (K1 + (K2 - {#u#} + M)) (add u1 u2)"
      by (rule adds_up.plus)
    moreover have "K1 + (K2 - {#u#} + M) = K1 + K2 - {#u#} + M"
      using 2 by (simp add: ac_simps)
    ultimately show ?thesis
      by simp
  qed
qed

lemma adds_up_exact: "adds_up (+) M v \<Longrightarrow> v = sum_mset M"
  by (induction rule: adds_up.induct) simp_all

section \<open>The traversal of the incremental rule\<close>

lemma getAreaFromCache_avail:
  assumes "c x \<noteq> None \<or> getLayer layerGroup x \<noteq> None"
  shows "getAreaFromCache T x layerGroup c =
     (Inr (areaOf T layerGroup c x), (\<lambda>k. if k = x then Some (areaOf T layerGroup c x) else c k))"
proof (cases "c x")
  case None
  with assms obtain l where "getLayer layerGroup x = Some l"
    by auto
  with None show ?thesis
    by (auto simp: getAreaFromCache_def areaOf_def Let_def)
next
  case (Some a)
  then have ao: "areaOf T layerGroup c x = a"
    by (simp add: areaOf_def)
  from Some have "(\<lambda>k. if k = x then Some a else c k) = c"
    by auto
  then show ?thesis
    unfolding ao using Some by (simp add: getAreaFromCache_def)
qed

lemma areaOf_filled:
  "areaOf T layerGroup (\<lambda>k. if k \<in> A then Some (areaOf T layerGroup c k) else c k) = areaOf T layerGroup c"
  by (rule ext) (simp add: areaOf_def)

lemma traversal_correct:
  "traversable g layerGroup (fst cc) U \<Longrightarrow> layerID \<in> U \<Longrightarrow>
     traversal_post T g layerGroup {layerID} {#} (fst cc) (snd cc)
       (recursiveGetTotalArea T g layerID layerGroup cc)"
  "traversable g layerGroup (fst cc) U \<Longrightarrow> set ids \<subseteq> U \<Longrightarrow>
     traversal_post T g layerGroup (set ids) {#totalArea#} (fst cc) (snd cc)
       (forOtherLayerIDs T g layerGroup ids totalArea cc)"
proof (induction T g layerID layerGroup cc and T g layerGroup ids totalArea cc
    rule: recursiveGetTotalArea_forOtherLayerIDs.induct)
  case (1 T g layerID layerGroup c ch)
  show ?case
  proof (cases "layerID \<in> set ch")
    case True
    have "recursiveGetTotalArea T g layerID layerGroup (c, ch) =
        (Inr 0, (\<lambda>k. if k \<in> set [] then Some (areaOf T layerGroup c k) else c k), ch @ [])"
      using True by simp
    moreover have "adds_up (js_plus T) ({#} + image_mset (areaOf T layerGroup c) (mset [])) 0"
      by (simp add: adds_up.zero)
    ultimately show ?thesis
      unfolding traversal_post_def fst_conv snd_conv using True
      by (intro exI [of _ "[]"] exI [of _ 0]) simp
  next
    case False
    let ?a = "areaOf T layerGroup c layerID"
    let ?c1 = "\<lambda>k. if k = layerID then Some ?a else c k"
    from "1.prems" have x: "map_of g layerID \<noteq> None" "nbrs g layerID \<subseteq> U"
      "c layerID \<noteq> None \<or> getLayer layerGroup layerID \<noteq> None"
      by (auto simp: traversable_def)
    have ga: "getAreaFromCache T layerID layerGroup c = (Inr ?a, ?c1)"
      using x(3) by (rule getAreaFromCache_avail [of c layerID layerGroup T])
    from x(1) obtain others where o: "map_of g layerID = Some others"
      by blast
    then have so: "set others = nbrs g layerID"
      by (simp add: nbrs_def)
    have tr1: "traversable g layerGroup ?c1 U"
      using "1.prems"(1) unfolding traversable_def by auto
    have "traversal_post T g layerGroup (set others) {#?a#} ?c1 (ch @ [layerID])
        (forOtherLayerIDs T g layerGroup others ?a (?c1, ch @ [layerID]))"
      using "1.IH" [OF False ga [symmetric] refl o] tr1 x(2) so by simp
    then obtain new total where
      res: "forOtherLayerIDs T g layerGroup others ?a (?c1, ch @ [layerID]) =
        (Inr total,
         (\<lambda>k. if k \<in> set new then Some (areaOf T layerGroup ?c1 k) else ?c1 k),
         (ch @ [layerID]) @ new)"
      and ad: "adds_up (js_plus T) ({#?a#} + image_mset (areaOf T layerGroup ?c1) (mset new)) total"
      and d: "distinct new" "set new \<inter> set (ch @ [layerID]) = {}"
      and r: "set new \<subseteq> (edges g)\<^sup>* `` set others"
      and s: "set others \<subseteq> set (ch @ [layerID]) \<union> set new"
      and cl: "\<forall>y \<in> set new. nbrs g y \<subseteq> set (ch @ [layerID]) \<union> set new"
      unfolding traversal_post_def by blast
    have a1: "areaOf T layerGroup ?c1 = areaOf T layerGroup c"
      by (rule ext) (auto simp: areaOf_def)
    have rr: "(edges g)\<^sup>* `` set others \<subseteq> (edges g)\<^sup>* `` {layerID}"
    proof
      fix y assume "y \<in> (edges g)\<^sup>* `` set others"
      then obtain z where z: "z \<in> set others" "(z, y) \<in> (edges g)\<^sup>*"
        by auto
      from z(1) so have "(layerID, z) \<in> edges g"
        by (simp add: edges_def)
      with z(2) show "y \<in> (edges g)\<^sup>* `` {layerID}"
        by (auto intro: converse_rtrancl_into_rtrancl)
    qed
    have "recursiveGetTotalArea T g layerID layerGroup (c, ch) =
        (Inr total,
         (\<lambda>k. if k \<in> set (layerID # new) then Some (areaOf T layerGroup c k) else c k),
         ch @ (layerID # new))"
      using False ga o res unfolding a1 by (auto intro!: ext)
    moreover have "adds_up (js_plus T) ({#} + image_mset (areaOf T layerGroup c) (mset (layerID # new))) total"
      using ad unfolding a1 by simp
    moreover have "distinct (layerID # new)" "set (layerID # new) \<inter> set ch = {}"
      using d False by auto
    moreover have "set (layerID # new) \<subseteq> (edges g)\<^sup>* `` {layerID}"
      using r rr by auto
    moreover have "{layerID} \<subseteq> set ch \<union> set (layerID # new)"
      by simp
    moreover have "\<forall>y \<in> set (layerID # new). nbrs g y \<subseteq> set ch \<union> set (layerID # new)"
      using cl s so by auto
    ultimately show ?thesis
      unfolding traversal_post_def fst_conv snd_conv by blast
  qed
next
  case (2 T g layerGroup totalArea c ch)
  have "forOtherLayerIDs T g layerGroup [] totalArea (c, ch) =
      (Inr totalArea, (\<lambda>k. if k \<in> set [] then Some (areaOf T layerGroup c k) else c k), ch @ [])"
    by simp
  moreover have "adds_up (js_plus T) ({#totalArea#} + image_mset (areaOf T layerGroup c) (mset [])) totalArea"
    by (simp add: adds_up.one)
  ultimately show ?case
    unfolding traversal_post_def fst_conv snd_conv
    by (intro exI [of _ "[]"] exI [of _ totalArea]) simp
next
  case (3 T g layerGroup otherLayerID rest totalArea c ch)
  from "3.prems" have mem: "otherLayerID \<in> U" "set rest \<subseteq> U"
    by auto
  have "traversal_post T g layerGroup {otherLayerID} {#} c ch
      (recursiveGetTotalArea T g otherLayerID layerGroup (c, ch))"
    using "3.IH"(1) "3.prems"(1) mem(1) by simp
  then obtain new1 total1 where
    res1: "recursiveGetTotalArea T g otherLayerID layerGroup (c, ch) =
        (Inr total1,
         (\<lambda>k. if k \<in> set new1 then Some (areaOf T layerGroup c k) else c k),
         ch @ new1)"
    and ad1: "adds_up (js_plus T) ({#} + image_mset (areaOf T layerGroup c) (mset new1)) total1"
    and d1: "distinct new1" "set new1 \<inter> set ch = {}"
    and r1: "set new1 \<subseteq> (edges g)\<^sup>* `` {otherLayerID}"
    and s1: "{otherLayerID} \<subseteq> set ch \<union> set new1"
    and cl1: "\<forall>y \<in> set new1. nbrs g y \<subseteq> set ch \<union> set new1"
    unfolding traversal_post_def by blast
  let ?c1 = "\<lambda>k. if k \<in> set new1 then Some (areaOf T layerGroup c k) else c k"
  let ?t1 = "js_plus T totalArea total1"
  have tr1: "traversable g layerGroup ?c1 U"
    using "3.prems"(1) by (auto simp: traversable_def)
  have a1: "areaOf T layerGroup ?c1 = areaOf T layerGroup c"
    by (rule areaOf_filled)
  have "traversal_post T g layerGroup (set rest) {#?t1#} ?c1 (ch @ new1)
      (forOtherLayerIDs T g layerGroup rest ?t1 (?c1, ch @ new1))"
    using "3.IH"(2) [OF res1 [symmetric] refl refl] tr1 mem(2) by simp
  then obtain new2 total2 where
    res2: "forOtherLayerIDs T g layerGroup rest ?t1 (?c1, ch @ new1) =
        (Inr total2,
         (\<lambda>k. if k \<in> set new2 then Some (areaOf T layerGroup ?c1 k) else ?c1 k),
         (ch @ new1) @ new2)"
    and ad2: "adds_up (js_plus T) ({#?t1#} + image_mset (areaOf T layerGroup ?c1) (mset new2)) total2"
    and d2: "distinct new2" "set new2 \<inter> set (ch @ new1) = {}"
    and r2: "set new2 \<subseteq> (edges g)\<^sup>* `` set rest"
    and s2: "set rest \<subseteq> set (ch @ new1) \<union> set new2"
    and cl2: "\<forall>y \<in> set new2. nbrs g y \<subseteq> set (ch @ new1) \<union> set new2"
    unfolding traversal_post_def by blast
  have t1: "adds_up (js_plus T) ({#totalArea#} + image_mset (areaOf T layerGroup c) (mset new1)) ?t1"
    using adds_up.plus [OF adds_up.one [of "js_plus T" totalArea] ad1] by simp
  have "adds_up (js_plus T)
      (({#?t1#} + image_mset (areaOf T layerGroup c) (mset new2)) - {#?t1#}
        + ({#totalArea#} + image_mset (areaOf T layerGroup c) (mset new1))) total2"
    by (rule adds_up_subst [OF ad2 [unfolded a1] _ t1]) simp
  then have ad: "adds_up (js_plus T)
      ({#totalArea#} + image_mset (areaOf T layerGroup c) (mset (new1 @ new2))) total2"
    by (simp add: ac_simps)
  have "forOtherLayerIDs T g layerGroup (otherLayerID # rest) totalArea (c, ch) =
      (Inr total2,
       (\<lambda>k. if k \<in> set (new1 @ new2) then Some (areaOf T layerGroup c k) else c k),
       ch @ (new1 @ new2))"
    using res1 res2 unfolding a1 by (auto intro!: ext)
  moreover note ad
  moreover have "distinct (new1 @ new2)" "set (new1 @ new2) \<inter> set ch = {}"
    using d1 d2 by auto
  moreover have "set (new1 @ new2) \<subseteq> (edges g)\<^sup>* `` set (otherLayerID # rest)"
    using r1 r2 by auto
  moreover have "set (otherLayerID # rest) \<subseteq> set ch \<union> set (new1 @ new2)"
    using s1 s2 by auto
  moreover have "\<forall>y \<in> set (new1 @ new2). nbrs g y \<subseteq> set ch \<union> set (new1 @ new2)"
    using cl1 cl2 by auto
  ultimately show ?case
    unfolding traversal_post_def fst_conv snd_conv by blast
qed

lemma cluster_closed:
  assumes "x \<in> V" and "\<forall>y \<in> V. nbrs g y \<subseteq> V"
  shows "cluster g x \<subseteq> V"
proof
  fix y assume "y \<in> cluster g x"
  then have "(x, y) \<in> (edges g)\<^sup>*"
    by (simp add: cluster_def)
  then show "y \<in> V"
  proof (induction rule: rtrancl_induct)
    case base
    show ?case by (rule assms(1))
  next
    case (step y z)
    then show ?case
      using assms(2) by (auto simp: edges_def)
  qed
qed

lemma traversal_cluster:
  assumes "traversable g layerGroup c U" and "x \<in> U"
  shows "\<exists>total checked. recursiveGetTotalArea T g x layerGroup (c, []) =
        (Inr total,
         (\<lambda>k. if k \<in> cluster g x then Some (areaOf T layerGroup c k) else c k),
         checked)
      \<and> distinct checked \<and> set checked = cluster g x
      \<and> adds_up (js_plus T) (image_mset (areaOf T layerGroup c) (mset checked)) total"
proof -
  from traversal_correct(1) [of g layerGroup "(c, [])" U x T] assms
  have "traversal_post T g layerGroup {x} {#} c [] (recursiveGetTotalArea T g x layerGroup (c, []))"
    by simp
  then obtain new total where
    res: "recursiveGetTotalArea T g x layerGroup (c, []) =
        (Inr total,
         (\<lambda>k. if k \<in> set new then Some (areaOf T layerGroup c k) else c k),
         [] @ new)"
    and ad: "adds_up (js_plus T) ({#} + image_mset (areaOf T layerGroup c) (mset new)) total"
    and d: "distinct new"
    and r: "set new \<subseteq> (edges g)\<^sup>* `` {x}"
    and s: "{x} \<subseteq> set [] \<union> set new"
    and cl: "\<forall>y \<in> set new. nbrs g y \<subseteq> set [] \<union> set new"
    unfolding traversal_post_def by blast
  have "cluster g x \<subseteq> set new"
    using cluster_closed [of x "set new" g] s cl by simp
  with r have eq: "set new = cluster g x"
    by (auto simp: cluster_def)
  from res ad d eq show ?thesis
    by simp
qed

lemma adds_up_exact_distinct:
  assumes "adds_up (+) (image_mset f (mset xs)) v" and "distinct xs"
  shows "v = (\<Sum>y \<in> set xs. f y)"
proof -
  from adds_up_exact [OF assms(1)] have "v = sum_list (map f xs)"
    by (simp add: sum_mset_sum_list [symmetric])
  also have "\<dots> = (\<Sum>y \<in> set xs. f y)"
    using assms(2) by (rule sum_list_distinct_conv_sum_set)
  finally show ?thesis .
qed

section \<open>Cycles in the overlap graph\<close>

text \<open>
  Claim C3.  On every overlap graph, with or without cycles, and from every
  entry point \<open>x\<close>, the traversal returns (the function is total, and on a set
  of ids that have an entry in the graph and an area it does not fail).  The
  ids it has checked are the ids reachable from \<open>x\<close>, each once, and the total
  it returns adds up the areas of these ids, each exactly once; when addition
  is exact, the total is the sum of the areas over the reachable ids.  The
  area of an id is the one getAreaFromCache yields: the cached one, else the
  area of its layer.  For the cycle of the claim, the reachable ids from any
  of \<open>A\<close>, \<open>B\<close>, \<open>C\<close> are the three.
\<close>

theorem cluster_counted_once:
  assumes "traversable g layerGroup cache U" and "x \<in> U"
  shows "\<exists>total cache' checked.
       recursiveGetTotalArea T g x layerGroup (cache, []) = (Inr total, cache', checked)
     \<and> distinct checked \<and> set checked = cluster g x
     \<and> adds_up (js_plus T) (image_mset (areaOf T layerGroup cache) (mset checked)) total
     \<and> (js_plus T = (+) \<longrightarrow> total = (\<Sum>y \<in> cluster g x. areaOf T layerGroup cache y))"
proof -
  from traversal_cluster [OF assms, of T] obtain total checked where
    res: "recursiveGetTotalArea T g x layerGroup (cache, []) =
        (Inr total,
         (\<lambda>k. if k \<in> cluster g x then Some (areaOf T layerGroup cache k) else cache k),
         checked)"
    and d: "distinct checked" and s: "set checked = cluster g x"
    and ad: "adds_up (js_plus T) (image_mset (areaOf T layerGroup cache) (mset checked)) total"
    by blast
  have "total = (\<Sum>y \<in> cluster g x. areaOf T layerGroup cache y)" if "js_plus T = (+)"
    using adds_up_exact_distinct [OF ad [unfolded that] d] s by simp
  with res d s ad show ?thesis
    by blast
qed

theorem cluster_counted_once_witness:
  "traversable [(1, [2, 4]), (2, [1, 3]), (3, [2, 4]), (4, [1, 3])]
     [L_example 1, L_example 2, L_example 3, L_example 4] Map.empty {1, 2, 3, 4}
   \<and> fst (recursiveGetTotalArea T_example [(1, [2, 4]), (2, [1, 3]), (3, [2, 4]), (4, [1, 3])] 1
        [L_example 1, L_example 2, L_example 3, L_example 4] (Map.empty, [])) = Inr 1500
   \<and> snd (snd (recursiveGetTotalArea T_example [(1, [2, 4]), (2, [1, 3]), (3, [2, 4]), (4, [1, 3])] 1
        [L_example 1, L_example 2, L_example 3, L_example 4] (Map.empty, []))) = [1, 2, 3, 4]
   \<and> cluster [(1, [2, 4]), (2, [1, 3]), (3, [2, 4]), (4, [1, 3])] 1 = {1, 2, 3, 4}
   \<and> (\<Sum>y \<in> cluster [(1, [2, 4]), (2, [1, 3]), (3, [2, 4]), (4, [1, 3])] 1.
        areaOf T_example [L_example 1, L_example 2, L_example 3, L_example 4] Map.empty y) = 1500"
proof -
  let ?g = "[(1, [2, 4]), (2, [1, 3]), (3, [2, 4]), (4, [1, 3])] :: graph"
  let ?lg = "[L_example 1, L_example 2, L_example 3, L_example 4]"
  let ?r = "recursiveGetTotalArea T_example ?g 1 ?lg (Map.empty, [])"
  have tr: "traversable ?g ?lg Map.empty {1, 2, 3, 4}"
    by (simp add: traversable_def nbrs_def getLayer_def L_example_def)
  have ex: "js_plus T_example = (+)"
    by (simp add: T_example_def)
  have t: "fst ?r = Inr 1500"
    by code_simp
  have c: "snd (snd ?r) = [1, 2, 3, 4]"
    by code_simp
  from cluster_counted_once [OF tr, of 1 T_example] obtain total cache' checked where
    res: "?r = (Inr total, cache', checked)"
    and s: "set checked = cluster ?g 1"
    and e: "js_plus T_example = (+) \<longrightarrow>
        total = (\<Sum>y \<in> cluster ?g 1. areaOf T_example ?lg Map.empty y)"
    by auto
  from res t c have "total = 1500" "checked = [1, 2, 3, 4]"
    by simp_all
  with s e ex have "cluster ?g 1 = {1, 2, 3, 4}"
    "(\<Sum>y \<in> cluster ?g 1. areaOf T_example ?lg Map.empty y) = 1500"
    by auto
  with tr t c show ?thesis
    by simp
qed

section \<open>The traversal of the naive rule\<close>

lemma getLayer_distinct:
  "distinct (map leaflet_id layerGroup) \<Longrightarrow> l \<in> set layerGroup \<Longrightarrow>
     getLayer layerGroup (leaflet_id l) = Some l"
  by (induction layerGroup) (auto simp: getLayer_def)

lemma naive_correct:
  "distinct (map leaflet_id layerGroup) \<Longrightarrow> l \<in> set layerGroup \<Longrightarrow>
     naive_post T layerGroup {leaflet_id l} {#} checked
       (getTotalAreaOfOverlappingEntities T l layerGroup checked)"
  "distinct (map leaflet_id layerGroup) \<Longrightarrow> l \<in> set layerGroup \<Longrightarrow> set rest \<subseteq> set layerGroup \<Longrightarrow>
     buf = turf_buffer T (toGeoJSON l) FIRE_BUFFER_IN_METER \<Longrightarrow>
     naive_post T layerGroup {leaflet_id otherLayer | otherLayer. otherLayer \<in> set rest \<and> naive_edge T l otherLayer}
       {#totalArea#} checked
       (getTotalArea_eachLayer T l buf layerGroup rest totalArea checked)"
proof (induction T l layerGroup checked and T l buf layerGroup rest totalArea checked
    rule: getTotalAreaOfOverlappingEntities_getTotalArea_eachLayer.induct)
  case (1 T l layerGroup ch)
  let ?R = "naive_edges T layerGroup"
  show ?case
  proof (cases "leaflet_id l \<in> set ch")
    case True
    have "adds_up (js_plus T) ({#} + image_mset (layerArea T layerGroup) (mset [])) 0"
      by (simp add: adds_up.zero)
    with True show ?thesis
      unfolding naive_post_def by (intro exI [of _ "[]"] exI [of _ 0]) simp
  next
    case False
    let ?S = "{leaflet_id otherLayer | otherLayer. otherLayer \<in> set layerGroup \<and> naive_edge T l otherLayer}"
    let ?a = "turf_area T (toGeoJSON l)"
    have "naive_post T layerGroup ?S {#?a#} (ch @ [leaflet_id l])
        (getTotalArea_eachLayer T l (turf_buffer T (toGeoJSON l) FIRE_BUFFER_IN_METER)
           layerGroup layerGroup ?a (ch @ [leaflet_id l]))"
      using "1.IH" [OF False "1.prems"] by simp
    then obtain new total where
      res: "getTotalArea_eachLayer T l (turf_buffer T (toGeoJSON l) FIRE_BUFFER_IN_METER)
           layerGroup layerGroup ?a (ch @ [leaflet_id l]) =
         (total, (ch @ [leaflet_id l]) @ new)"
      and ad: "adds_up (js_plus T) ({#?a#} + image_mset (layerArea T layerGroup) (mset new)) total"
      and d: "distinct new" "set new \<inter> set (ch @ [leaflet_id l]) = {}"
      and r: "set new \<subseteq> ?R\<^sup>* `` ?S"
      and s: "?S \<subseteq> set (ch @ [leaflet_id l]) \<union> set new"
      and cl: "\<forall>y \<in> set new. ?R `` {y} \<subseteq> set (ch @ [leaflet_id l]) \<union> set new"
      unfolding naive_post_def by blast
    have la: "layerArea T layerGroup (leaflet_id l) = ?a"
      using getLayer_distinct [OF "1.prems"] by (simp add: layerArea_def)
    have inj: "a = l" if "a \<in> set layerGroup" "leaflet_id a = leaflet_id l" for a
      using that "1.prems" by (metis distinct_map inj_on_def)
    have Rl: "?R `` {leaflet_id l} = ?S"
      unfolding naive_edges_def using inj "1.prems"(2) by auto
    have rr: "?R\<^sup>* `` ?S \<subseteq> ?R\<^sup>* `` {leaflet_id l}"
    proof
      fix y assume "y \<in> ?R\<^sup>* `` ?S"
      then obtain z where z: "z \<in> ?S" "(z, y) \<in> ?R\<^sup>*"
        by blast
      from z(1) Rl have "(leaflet_id l, z) \<in> ?R"
        by blast
      with z(2) show "y \<in> ?R\<^sup>* `` {leaflet_id l}"
        by (auto intro: converse_rtrancl_into_rtrancl)
    qed
    have "getTotalAreaOfOverlappingEntities T l layerGroup ch = (total, ch @ (leaflet_id l # new))"
      using False res by simp
    moreover have "adds_up (js_plus T)
        ({#} + image_mset (layerArea T layerGroup) (mset (leaflet_id l # new))) total"
      using ad la by simp
    moreover have "distinct (leaflet_id l # new)" "set (leaflet_id l # new) \<inter> set ch = {}"
      using d False by auto
    moreover have "set (leaflet_id l # new) \<subseteq> ?R\<^sup>* `` {leaflet_id l}"
      using r rr by auto
    moreover have "{leaflet_id l} \<subseteq> set ch \<union> set (leaflet_id l # new)"
      by simp
    moreover have "\<forall>y \<in> set (leaflet_id l # new). ?R `` {y} \<subseteq> set ch \<union> set (leaflet_id l # new)"
      using cl s Rl by auto
    ultimately show ?thesis
      unfolding naive_post_def by blast
  qed
next
  case (2 T l buf layerGroup totalArea ch)
  have "adds_up (js_plus T) ({#totalArea#} + image_mset (layerArea T layerGroup) (mset [])) totalArea"
    by (simp add: adds_up.one)
  then show ?case
    unfolding naive_post_def by (intro exI [of _ "[]"] exI [of _ totalArea]) simp
next
  case (3 T l buf layerGroup otherLayer rest totalArea ch)
  let ?R = "naive_edges T layerGroup"
  let ?S = "\<lambda>ls. {leaflet_id o' | o'. o' \<in> set ls \<and> naive_edge T l o'}"
  from "3.prems" have pr: "distinct (map leaflet_id layerGroup)" "l \<in> set layerGroup"
    "set rest \<subseteq> set layerGroup" "otherLayer \<in> set layerGroup"
    "buf = turf_buffer T (toGeoJSON l) FIRE_BUFFER_IN_METER"
    by auto
  show ?case
  proof (cases "compareLayers l otherLayer")
    case True
    then have S: "?S (otherLayer # rest) = ?S rest"
      by (auto simp: naive_edge_def)
    from "3.IH"(5) [OF _ pr(1,2,3,5)] True show ?thesis
      unfolding S by simp
  next
    case nc: False
    show ?thesis
    proof (cases "otherLayerPolygon_naive otherLayer")
      case None
      then have S: "?S (otherLayer # rest) = ?S rest"
        by (auto simp: naive_edge_def)
      from "3.IH"(1) [OF nc None pr(1,2,3,5)] nc None show ?thesis
        unfolding S by simp
    next
      case (Some p)
      show ?thesis
      proof (cases "turf_booleanOverlap T buf p")
        case False
        then have S: "?S (otherLayer # rest) = ?S rest"
          using Some pr(5) by (auto simp: naive_edge_def)
        from "3.IH"(4) [OF nc Some False pr(1,2,3,5)] nc Some False show ?thesis
          unfolding S by simp
      next
        case ov: True
        then have S: "?S (otherLayer # rest) = insert (leaflet_id otherLayer) (?S rest)"
          using Some pr(5) nc by (auto simp: naive_edge_def)
        have "naive_post T layerGroup {leaflet_id otherLayer} {#} ch
            (getTotalAreaOfOverlappingEntities T otherLayer layerGroup ch)"
          by (rule "3.IH"(2) [OF nc Some ov pr(1,4)])
        then obtain new1 total1 where
          res1: "getTotalAreaOfOverlappingEntities T otherLayer layerGroup ch = (total1, ch @ new1)"
          and ad1: "adds_up (js_plus T) ({#} + image_mset (layerArea T layerGroup) (mset new1)) total1"
          and d1: "distinct new1" "set new1 \<inter> set ch = {}"
          and r1: "set new1 \<subseteq> ?R\<^sup>* `` {leaflet_id otherLayer}"
          and s1: "{leaflet_id otherLayer} \<subseteq> set ch \<union> set new1"
          and cl1: "\<forall>y \<in> set new1. ?R `` {y} \<subseteq> set ch \<union> set new1"
          unfolding naive_post_def by blast
        let ?t1 = "js_plus T totalArea total1"
        have "naive_post T layerGroup (?S rest) {#?t1#} (ch @ new1)
            (getTotalArea_eachLayer T l buf layerGroup rest ?t1 (ch @ new1))"
          by (rule "3.IH"(3) [OF nc Some ov res1 [symmetric] pr(1,2,3,5)])
        then obtain new2 total2 where
          res2: "getTotalArea_eachLayer T l buf layerGroup rest ?t1 (ch @ new1) =
             (total2, (ch @ new1) @ new2)"
          and ad2: "adds_up (js_plus T) ({#?t1#} + image_mset (layerArea T layerGroup) (mset new2)) total2"
          and d2: "distinct new2" "set new2 \<inter> set (ch @ new1) = {}"
          and r2: "set new2 \<subseteq> ?R\<^sup>* `` ?S rest"
          and s2: "?S rest \<subseteq> set (ch @ new1) \<union> set new2"
          and cl2: "\<forall>y \<in> set new2. ?R `` {y} \<subseteq> set (ch @ new1) \<union> set new2"
          unfolding naive_post_def by blast
        have t1: "adds_up (js_plus T)
            ({#totalArea#} + image_mset (layerArea T layerGroup) (mset new1)) ?t1"
          using adds_up.plus [OF adds_up.one [of "js_plus T" totalArea] ad1] by simp
        have "adds_up (js_plus T)
            (({#?t1#} + image_mset (layerArea T layerGroup) (mset new2)) - {#?t1#}
              + ({#totalArea#} + image_mset (layerArea T layerGroup) (mset new1))) total2"
          by (rule adds_up_subst [OF ad2 _ t1]) simp
        then have ad: "adds_up (js_plus T)
            ({#totalArea#} + image_mset (layerArea T layerGroup) (mset (new1 @ new2))) total2"
          by (simp add: ac_simps)
        have "getTotalArea_eachLayer T l buf layerGroup (otherLayer # rest) totalArea ch =
            (total2, ch @ (new1 @ new2))"
          using nc Some ov res1 res2 by simp
        moreover note ad
        moreover have "distinct (new1 @ new2)" "set (new1 @ new2) \<inter> set ch = {}"
          using d1 d2 by auto
        moreover have "set (new1 @ new2) \<subseteq> ?R\<^sup>* `` ?S (otherLayer # rest)"
        proof -
          have "?R\<^sup>* `` insert (leaflet_id otherLayer) (?S rest) =
              ?R\<^sup>* `` {leaflet_id otherLayer} \<union> ?R\<^sup>* `` ?S rest"
            by blast
          then show ?thesis
            unfolding S using r1 r2 by auto
        qed
        moreover have "?S (otherLayer # rest) \<subseteq> set ch \<union> set (new1 @ new2)"
          unfolding S using s1 s2 by auto
        moreover have "\<forall>y \<in> set (new1 @ new2). ?R `` {y} \<subseteq> set ch \<union> set (new1 @ new2)"
          using cl1 cl2 by auto
        ultimately show ?thesis
          unfolding naive_post_def by blast
      qed
    qed
  qed
qed

lemma naive_cluster:
  assumes "distinct (map leaflet_id layerGroup)" and "l \<in> set layerGroup"
  shows "\<exists>total checked. getTotalAreaOfOverlappingEntities T l layerGroup [] = (total, checked)
      \<and> distinct checked \<and> set checked = (naive_edges T layerGroup)\<^sup>* `` {leaflet_id l}
      \<and> adds_up (js_plus T) (image_mset (layerArea T layerGroup) (mset checked)) total"
proof -
  let ?R = "naive_edges T layerGroup"
  from naive_correct(1) [OF assms, of T "[]"] obtain new total where
    res: "getTotalAreaOfOverlappingEntities T l layerGroup [] = (total, [] @ new)"
    and ad: "adds_up (js_plus T) ({#} + image_mset (layerArea T layerGroup) (mset new)) total"
    and d: "distinct new"
    and r: "set new \<subseteq> ?R\<^sup>* `` {leaflet_id l}"
    and s: "{leaflet_id l} \<subseteq> set [] \<union> set new"
    and cl: "\<forall>y \<in> set new. ?R `` {y} \<subseteq> set [] \<union> set new"
    unfolding naive_post_def by blast
  have "?R\<^sup>* `` {leaflet_id l} \<subseteq> set new"
  proof
    fix y assume "y \<in> ?R\<^sup>* `` {leaflet_id l}"
    then have "(leaflet_id l, y) \<in> ?R\<^sup>*"
      by simp
    then show "y \<in> set new"
    proof (induction rule: rtrancl_induct)
      case base
      show ?case using s by simp
    next
      case (step y z)
      then show ?case
        using cl by auto
    qed
  qed
  with r have eq: "set new = ?R\<^sup>* `` {leaflet_id l}"
    by blast
  from res ad d eq show ?thesis
    by simp
qed

section \<open>The incremental and the naive cluster total\<close>

lemma reach_ignores_in_edges_sub:
  assumes "\<And>a b. b \<noteq> x \<Longrightarrow> (a, b) \<in> R \<Longrightarrow> (a, b) \<in> R'"
  shows "R\<^sup>* `` {x} \<subseteq> R'\<^sup>* `` {x}"
proof
  fix y assume "y \<in> R\<^sup>* `` {x}"
  then have "(x, y) \<in> R\<^sup>*"
    by simp
  then have "(x, y) \<in> R'\<^sup>*"
  proof (induction rule: rtrancl_induct)
    case base
    show ?case by simp
  next
    case (step y z)
    show ?case
    proof (cases "z = x")
      case True
      then show ?thesis by simp
    next
      case False
      from assms [OF False step.hyps(2)] step.IH show ?thesis
        by (rule rtrancl_into_rtrancl [rotated])
    qed
  qed
  then show "y \<in> R'\<^sup>* `` {x}"
    by simp
qed

lemma reach_ignores_in_edges:
  assumes "\<And>a b. b \<noteq> x \<Longrightarrow> (a, b) \<in> R \<longleftrightarrow> (a, b) \<in> R'"
  shows "R\<^sup>* `` {x} = R'\<^sup>* `` {x}"
  using reach_ignores_in_edges_sub [of x R R'] reach_ignores_in_edges_sub [of x R' R] assms
  by blast

lemma polygon_naive_iff:
  "getLayerPolygon otherLayer = Inr p \<longleftrightarrow> otherLayerPolygon_naive otherLayer = Some p"
  by (cases "toGeoJSON otherLayer") (auto simp: getLayerPolygon_def otherLayerPolygon_naive_def)

lemma getOverlappingLayerIds_naive_edge:
  assumes "getOverlappingLayerIds T l layerGroup = Inr N"
  shows "set N = {leaflet_id otherLayer | otherLayer. otherLayer \<in> set layerGroup \<and> naive_edge T l otherLayer}"
proof -
  from assms have "getOverlappingLayerIds_eachLayer T l
      (turf_buffer T (toGeoJSON l) FIRE_BUFFER_IN_METER) layerGroup [] = Inr N"
    by (simp add: getOverlappingLayerIds_def)
  from getOverlappingLayerIds_eachLayer_set [OF this] show ?thesis
    unfolding naive_edge_def polygon_naive_iff by simp
qed

lemma naive_edges_Image:
  assumes "distinct (map leaflet_id layerGroup)" and "l \<in> set layerGroup"
  shows "naive_edges T layerGroup `` {leaflet_id l} =
     {leaflet_id otherLayer | otherLayer. otherLayer \<in> set layerGroup \<and> naive_edge T l otherLayer}"
proof -
  have inj: "a = l" if "a \<in> set layerGroup" "leaflet_id a = leaflet_id l" for a
    using that assms by (metis distinct_map inj_on_def)
  show ?thesis
    unfolding naive_edges_def using inj assms(2) by auto
qed

lemma naive_edges_live:
  "(a, b) \<in> naive_edges T layerGroup \<Longrightarrow> a \<in> leaflet_id ` set layerGroup \<and> b \<in> leaflet_id ` set layerGroup"
  by (auto simp: naive_edges_def)

lemma incremental_total:
  fixes T :: "('f, 'b) Turf"
  assumes dist: "distinct (map leaflet_id layerGroup)"
    and live: "entity_layer entity \<in> set layerGroup"
    and supp: "\<forall>l \<in> set layerGroup. toGeoJSON l \<noteq> OtherGeoJSON"
    and inv: "state_inv st"
    and agr: "cache_agrees T layerGroup (areaCache st)"
    and cur: "graph_current T layerGroup (leaflet_id (entity_layer entity)) (layersGraph st)"
  shows "\<exists>total checked. fst (fastOverlap_totalArea T layerGroup entity st) = Inr total
     \<and> distinct checked
     \<and> set checked = (naive_edges T layerGroup)\<^sup>* `` {leaflet_id (entity_layer entity)}
     \<and> adds_up (js_plus T) (image_mset (layerArea T layerGroup) (mset checked)) total"
proof -
  let ?E = "entity_layer entity"
  let ?e = "leaflet_id ?E"
  let ?st1 = "st\<lparr>hasRunOnce := True, pik := pik st + 1\<rparr>"
  let ?st2 = "after_gc layerGroup st"
  let ?g = "layersGraph st"
  let ?g2 = "layersGraph ?st2"
  let ?R = "naive_edges T layerGroup"
  let ?L = "leaflet_id ` set layerGroup"
  let ?D = "dead_keys layerGroup ?g"
  have "state_inv ?st1"
    using inv by (simp add: state_inv_def)
  then have inv2: "state_inv ?st2"
    unfolding after_gc_def by (rule deleteFromAreaCache_state_inv)
  have dead: "a \<in> ?D \<longleftrightarrow> map_of ?g a \<noteq> None \<and> a \<notin> ?L" for a
    by (auto simp: dead_keys_def map_of_eq_None_iff getLayer_None)
  have n2: "nbrs ?g2 a = (if a \<in> ?D then {} else nbrs ?g a - ?D)" for a
    using nbrs_deleteFromAreaCache [of layerGroup ?st1 a] by (simp add: after_gc_def)
  have k2: "map_of ?g2 a \<noteq> None \<longleftrightarrow> map_of ?g a \<noteq> None \<and> a \<notin> ?D" for a
    using keys_deleteFromAreaCache [of layerGroup ?st1 a] by (simp add: after_gc_def)
  have c2: "areaCache ?st2 a = (if a \<in> ?D then None else areaCache st a)" for a
    using cache_deleteFromAreaCache [of layerGroup ?st1 a] by (simp add: after_gc_def)
  have k2_live: "a \<in> ?L" if "map_of ?g2 a \<noteq> None" for a
    using that unfolding k2 dead by blast
  from inv show ?thesis
  proof (cases rule: fastOverlap_totalArea_cases [where T = T and layerGroup = layerGroup and entity = entity])
    case (unsupported err)
    then have "\<exists>err. getOverlappingLayerIds_eachLayer T ?E
        (turf_buffer T (toGeoJSON ?E) FIRE_BUFFER_IN_METER) layerGroup [] = Inl err"
      by (auto simp: getOverlappingLayerIds_def)
    then show ?thesis
      unfolding getOverlappingLayerIds_eachLayer_Inl using supp by blast
  next
    case (traversed N g' r c ch)
    have N: "set N = ?R `` {?e}"
      unfolding naive_edges_Image [OF dist live]
      by (rule getOverlappingLayerIds_naive_edge [OF traversed(1)])
    have N_live: "set N \<subseteq> ?L"
      using getOverlappingLayerIds_subset [OF traversed(1)] by blast
    have cl2: "\<forall>b \<in> nbrs ?g2 ?e. map_of ?g2 b \<noteq> None"
      using inv2 by (auto simp: state_inv_def graph_closed_def)
    from updateLayerGraph_nbrs [OF cl2, of N] inv2 traversed(2) have
      n': "\<And>a. nbrs g' a = (if a = ?e then set N
                          else if a \<in> set N then insert ?e (nbrs ?g2 a)
                          else nbrs ?g2 a - {?e})"
      and k': "\<And>a. map_of g' a \<noteq> None \<longleftrightarrow> a = ?e \<or> a \<in> set N \<or> map_of ?g2 a \<noteq> None"
      unfolding state_inv_def by (metis prod.inject)+
    from updateLayerGraph_inv [OF _ _ traversed(2)] inv2 have clo: "graph_closed g'"
      by (simp add: state_inv_def)
    have k'_live: "a \<in> ?L" if "map_of g' a \<noteq> None" for a
      using that live N_live k2_live unfolding k' by auto
    have tr: "traversable g' layerGroup (areaCache ?st2) {a. map_of g' a \<noteq> None}"
      unfolding traversable_def
    proof (intro ballI conjI)
      fix x assume x: "x \<in> {a. map_of g' a \<noteq> None}"
      then show "map_of g' x \<noteq> None"
        by simp
      show "nbrs g' x \<subseteq> {a. map_of g' a \<noteq> None}"
        using clo unfolding graph_closed_def by blast
      from x k'_live have "x \<in> ?L"
        by simp
      then show "areaCache ?st2 x \<noteq> None \<or> getLayer layerGroup x \<noteq> None"
        by (simp add: getLayer_None)
    qed
    have "map_of g' ?e \<noteq> None"
      using k' [of ?e] by blast
    then have eK: "?e \<in> {a. map_of g' a \<noteq> None}"
      by simp
    from traversal_cluster [OF tr eK, of T] traversed(3) obtain total checked where
      r: "r = Inr total" and d: "distinct checked" and s: "set checked = cluster g' ?e"
      and ad: "adds_up (js_plus T) (image_mset (areaOf T layerGroup (areaCache ?st2)) (mset checked)) total"
      by auto
    have cur': "nbrs ?g a - {?e} = ?R `` {a} - {?e}" if "a \<in> ?L" "a \<noteq> ?e" for a
    proof -
      from that(1) obtain l where l: "l \<in> set layerGroup" "a = leaflet_id l"
        by blast
      with cur that(2) show ?thesis
        unfolding graph_current_def naive_edges_Image [OF dist l(1)] l(2) by blast
    qed
    have edge: "(a, b) \<in> edges g' \<longleftrightarrow> (a, b) \<in> ?R" if "b \<noteq> ?e" for a b
    proof (cases "a = ?e")
      case True
      then show ?thesis
        using N by (auto simp: edges_def n')
    next
      case ne: False
      show ?thesis
      proof (cases "a \<in> ?L")
        case True
        then have nd: "a \<notin> ?D"
          by (simp add: dead)
        have 1: "b \<in> nbrs ?g a \<longleftrightarrow> (a, b) \<in> ?R"
          using cur' [OF True ne] that by blast
        have 2: "b \<notin> ?D" if "(a, b) \<in> ?R"
          using naive_edges_live [OF that] dead by blast
        have "b \<in> nbrs ?g2 a \<longleftrightarrow> (a, b) \<in> ?R"
          unfolding n2 using nd 1 2 by auto
        then show ?thesis
          using ne that by (auto simp: edges_def n')
      next
        case False
        then have "map_of ?g2 a = None"
          using k2_live by blast
        then have "nbrs ?g2 a = {}"
          by (simp add: nbrs_def)
        moreover have "a \<notin> set N"
          using False N_live by blast
        moreover have "(a, b) \<notin> ?R"
          using False naive_edges_live [of a b T layerGroup] by blast
        ultimately show ?thesis
          using ne by (simp add: edges_def n')
      qed
    qed
    have clu: "cluster g' ?e = ?R\<^sup>* `` {?e}"
      unfolding cluster_def by (rule reach_ignores_in_edges) (rule edge)
    have clu_keys: "y \<in> ?L" if "y \<in> cluster g' ?e" for y
    proof -
      have "cluster g' ?e \<subseteq> {a. map_of g' a \<noteq> None}"
        by (rule cluster_closed) (use eK clo in \<open>auto simp: graph_closed_def\<close>)
      with that k'_live show ?thesis
        by blast
    qed
    have ar: "areaOf T layerGroup (areaCache ?st2) y = layerArea T layerGroup y"
      if "y \<in> cluster g' ?e" for y
    proof -
      from clu_keys [OF that] obtain l where l: "l \<in> set layerGroup" "y = leaflet_id l"
        by blast
      have gl: "getLayer layerGroup y = Some l"
        unfolding l(2) by (rule getLayer_distinct [OF dist l(1)])
      show ?thesis
      proof (cases "areaCache ?st2 y")
        case None
        then show ?thesis
          by (simp add: areaOf_def layerArea_def)
      next
        case (Some a)
        then have "areaCache st y = Some a"
          unfolding c2 by (simp split: if_splits)
        with agr l have "a = turf_area T (toGeoJSON l)"
          unfolding cache_agrees_def by blast
        with Some gl show ?thesis
          by (simp add: areaOf_def layerArea_def)
      qed
    qed
    have "image_mset (areaOf T layerGroup (areaCache ?st2)) (mset checked) =
        image_mset (layerArea T layerGroup) (mset checked)"
      by (rule image_mset_cong) (simp add: ar s)
    with ad have "adds_up (js_plus T) (image_mset (layerArea T layerGroup) (mset checked)) total"
      by simp
    with r traversed(4) d s show ?thesis
      unfolding clu by auto
  qed
qed

text \<open>
  The graph of a state is symmetric, so a state can agree with a snapshot only
  if the neighbour test is symmetric between the layers other than the
  evaluated one.
\<close>

lemma current_graph_symmetric_overlap:
  assumes dist: "distinct (map leaflet_id layerGroup)"
    and sym: "graph_symmetric g"
    and cur: "graph_current T layerGroup E g"
    and a: "a \<in> set layerGroup" "leaflet_id a \<noteq> E"
    and b: "b \<in> set layerGroup" "leaflet_id b \<noteq> E"
  shows "naive_edge T a b \<longleftrightarrow> naive_edge T b a"
proof -
  define N where "N z = {leaflet_id otherLayer | otherLayer.
      otherLayer \<in> set layerGroup \<and> naive_edge T z otherLayer}" for z
  have c: "nbrs g (leaflet_id z) - {E} = N z - {E}" if "z \<in> set layerGroup" "leaflet_id z \<noteq> E" for z
    unfolding N_def by (rule cur [unfolded graph_current_def, rule_format, OF that])
  have imp: "naive_edge T y x"
    if x: "x \<in> set layerGroup" "leaflet_id x \<noteq> E"
      and y: "y \<in> set layerGroup" "leaflet_id y \<noteq> E"
      and e: "naive_edge T x y" for x y
  proof -
    from e y(1) have "leaflet_id y \<in> N x"
      unfolding N_def by blast
    with y(2) have "leaflet_id y \<in> N x - {E}"
      by simp
    then have "leaflet_id y \<in> nbrs g (leaflet_id x) - {E}"
      unfolding c [OF x] .
    then have "leaflet_id y \<in> nbrs g (leaflet_id x)"
      by simp
    with sym have "leaflet_id x \<in> nbrs g (leaflet_id y)"
      unfolding graph_symmetric_def by simp
    with x(2) have "leaflet_id x \<in> nbrs g (leaflet_id y) - {E}"
      by simp
    then have "leaflet_id x \<in> N y"
      unfolding c [OF y] by simp
    then obtain x' where x': "x' \<in> set layerGroup" "naive_edge T y x'"
      "leaflet_id x = leaflet_id x'"
      unfolding N_def by blast
    from x'(1,3) x(1) dist have "x' = x"
      by (metis distinct_map inj_on_def)
    with x'(2) show ?thesis
      by simp
  qed
  from imp [OF a b] imp [OF b a] show ?thesis
    by blast
qed

section \<open>States that agree with a snapshot\<close>

text \<open>
  One evaluation on a snapshot with a symmetric neighbour test: the recorded
  neighbours of the evaluated layer become current, those that were current
  stay so, and the cached areas stay the areas of the layers.
\<close>

lemma evaluation_refreshes:
  fixes T :: "('f, 'b) Turf"
  assumes dist: "distinct (map leaflet_id layerGroup)"
    and live: "entity_layer entity \<in> set layerGroup"
    and supp: "\<forall>l \<in> set layerGroup. toGeoJSON l \<noteq> OtherGeoJSON"
    and sym: "\<forall>a \<in> set layerGroup. \<forall>b \<in> set layerGroup. naive_edge T a b \<longleftrightarrow> naive_edge T b a"
    and inv: "state_inv st"
    and agr: "cache_agrees T layerGroup (areaCache st)"
    and fr: "\<forall>a \<in> S. nbrs (layersGraph st) a = naive_edges T layerGroup `` {a}"
    and S: "S \<subseteq> leaflet_id ` set layerGroup"
  shows "cache_agrees T layerGroup (areaCache (snd (fastOverlap_totalArea T layerGroup entity st)))"
    and "\<forall>a \<in> insert (leaflet_id (entity_layer entity)) S.
       nbrs (layersGraph (snd (fastOverlap_totalArea T layerGroup entity st))) a =
         naive_edges T layerGroup `` {a}"
proof -
  let ?E = "entity_layer entity"
  let ?e = "leaflet_id ?E"
  let ?st1 = "st\<lparr>hasRunOnce := True, pik := pik st + 1\<rparr>"
  let ?st2 = "after_gc layerGroup st"
  let ?g = "layersGraph st"
  let ?g2 = "layersGraph ?st2"
  let ?R = "naive_edges T layerGroup"
  let ?L = "leaflet_id ` set layerGroup"
  let ?D = "dead_keys layerGroup ?g"
  let ?st' = "snd (fastOverlap_totalArea T layerGroup entity st)"
  have "state_inv ?st1"
    using inv by (simp add: state_inv_def)
  then have inv2: "state_inv ?st2"
    unfolding after_gc_def by (rule deleteFromAreaCache_state_inv)
  have dead: "a \<in> ?D \<longleftrightarrow> map_of ?g a \<noteq> None \<and> a \<notin> ?L" for a
    by (auto simp: dead_keys_def map_of_eq_None_iff getLayer_None)
  have n2: "nbrs ?g2 a = (if a \<in> ?D then {} else nbrs ?g a - ?D)" for a
    using nbrs_deleteFromAreaCache [of layerGroup ?st1 a] by (simp add: after_gc_def)
  have k2: "map_of ?g2 a \<noteq> None \<longleftrightarrow> map_of ?g a \<noteq> None \<and> a \<notin> ?D" for a
    using keys_deleteFromAreaCache [of layerGroup ?st1 a] by (simp add: after_gc_def)
  have c2: "areaCache ?st2 a = (if a \<in> ?D then None else areaCache st a)" for a
    using cache_deleteFromAreaCache [of layerGroup ?st1 a] by (simp add: after_gc_def)
  have k2_live: "a \<in> ?L" if "map_of ?g2 a \<noteq> None" for a
    using that unfolding k2 dead by blast
  have symR: "(a, b) \<in> ?R \<longleftrightarrow> (b, a) \<in> ?R" for a b
    unfolding naive_edges_def using sym by blast
  have both: "cache_agrees T layerGroup (areaCache ?st') \<and>
      (\<forall>a \<in> insert ?e S. nbrs (layersGraph ?st') a = ?R `` {a})"
    using inv
  proof (cases rule: fastOverlap_totalArea_cases [where T = T and layerGroup = layerGroup and entity = entity])
    case (unsupported err)
    then have "\<exists>err. getOverlappingLayerIds_eachLayer T ?E
        (turf_buffer T (toGeoJSON ?E) FIRE_BUFFER_IN_METER) layerGroup [] = Inl err"
      by (auto simp: getOverlappingLayerIds_def)
    then show ?thesis
      unfolding getOverlappingLayerIds_eachLayer_Inl using supp by blast
  next
    case (traversed N g' r c ch)
    have N: "set N = ?R `` {?e}"
      unfolding naive_edges_Image [OF dist live]
      by (rule getOverlappingLayerIds_naive_edge [OF traversed(1)])
    have N_live: "set N \<subseteq> ?L"
      using getOverlappingLayerIds_subset [OF traversed(1)] by blast
    have cl2: "\<forall>b \<in> nbrs ?g2 ?e. map_of ?g2 b \<noteq> None"
      using inv2 by (auto simp: state_inv_def graph_closed_def)
    from updateLayerGraph_nbrs [OF cl2, of N] inv2 traversed(2) have
      n': "\<And>a. nbrs g' a = (if a = ?e then set N
                          else if a \<in> set N then insert ?e (nbrs ?g2 a)
                          else nbrs ?g2 a - {?e})"
      and k': "\<And>a. map_of g' a \<noteq> None \<longleftrightarrow> a = ?e \<or> a \<in> set N \<or> map_of ?g2 a \<noteq> None"
      unfolding state_inv_def by (metis prod.inject)+
    from updateLayerGraph_inv [OF _ _ traversed(2)] inv2 have clo: "graph_closed g'"
      by (simp add: state_inv_def)
    have k'_live: "a \<in> ?L" if "map_of g' a \<noteq> None" for a
      using that live N_live k2_live unfolding k' by auto
    have tr: "traversable g' layerGroup (areaCache ?st2) {a. map_of g' a \<noteq> None}"
      unfolding traversable_def
    proof (intro ballI conjI)
      fix x assume x: "x \<in> {a. map_of g' a \<noteq> None}"
      then show "map_of g' x \<noteq> None"
        by simp
      show "nbrs g' x \<subseteq> {a. map_of g' a \<noteq> None}"
        using clo unfolding graph_closed_def by blast
      from x k'_live have "x \<in> ?L"
        by simp
      then show "areaCache ?st2 x \<noteq> None \<or> getLayer layerGroup x \<noteq> None"
        by (simp add: getLayer_None)
    qed
    have "map_of g' ?e \<noteq> None"
      using k' [of ?e] by blast
    then have eK: "?e \<in> {a. map_of g' a \<noteq> None}"
      by simp
    from traversal_cluster [OF tr eK, of T] traversed(3) have
      c: "c = (\<lambda>k. if k \<in> cluster g' ?e then Some (areaOf T layerGroup (areaCache ?st2) k)
                   else areaCache ?st2 k)"
      by auto
    have st': "?st' = ?st2\<lparr>layersGraph := g', areaCache := c\<rparr>"
      using traversed(4) by simp
    have ar: "areaOf T layerGroup (areaCache ?st2) (leaflet_id l) = turf_area T (toGeoJSON l)"
      and ag2: "areaCache ?st2 (leaflet_id l) = Some a \<Longrightarrow> a = turf_area T (toGeoJSON l)"
      if l: "l \<in> set layerGroup" for l a
    proof -
      have gl: "getLayer layerGroup (leaflet_id l) = Some l"
        by (rule getLayer_distinct [OF dist l])
      show ag2: "a = turf_area T (toGeoJSON l)" if "areaCache ?st2 (leaflet_id l) = Some a" for a
      proof -
        from that have "areaCache st (leaflet_id l) = Some a"
          unfolding c2 by (simp split: if_splits)
        with agr l show ?thesis
          unfolding cache_agrees_def by blast
      qed
      show "areaOf T layerGroup (areaCache ?st2) (leaflet_id l) = turf_area T (toGeoJSON l)"
      proof (cases "areaCache ?st2 (leaflet_id l)")
        case None
        with gl show ?thesis
          by (simp add: areaOf_def)
      next
        case (Some a)
        with ag2 [OF Some] show ?thesis
          by (simp add: areaOf_def)
      qed
    qed
    have agr': "cache_agrees T layerGroup (areaCache ?st')"
      unfolding cache_agrees_def st' c using ar ag2 by (auto split: if_splits)
    have "nbrs g' a = ?R `` {a}" if a: "a \<in> insert ?e S" for a
    proof (cases "a = ?e")
      case True
      then show ?thesis
        using N by (simp add: n')
    next
      case ne: False
      with a have aS: "a \<in> S"
        by simp
      with S have aL: "a \<in> ?L"
        by blast
      then have nd: "a \<notin> ?D"
        by (simp add: dead)
      from fr aS have cur: "nbrs ?g a = ?R `` {a}"
        by blast
      have "?R `` {a} \<inter> ?D = {}"
        using naive_edges_live [of a _ T layerGroup] dead by blast
      then have g2a: "nbrs ?g2 a = ?R `` {a}"
        unfolding n2 using nd cur by auto
      show ?thesis
      proof (cases "a \<in> set N")
        case True
        then have "(a, ?e) \<in> ?R"
          unfolding N using symR [of a ?e] by simp
        then show ?thesis
          using ne True g2a by (auto simp: n')
      next
        case False
        then have "(a, ?e) \<notin> ?R"
          unfolding N using symR [of a ?e] by simp
        then show ?thesis
          using ne False g2a by (auto simp: n')
      qed
    qed
    with agr' show ?thesis
      unfolding st' by simp
  qed
  from both show "cache_agrees T layerGroup (areaCache ?st')"
    by blast
  from both show "\<forall>a \<in> insert ?e S. nbrs (layersGraph ?st') a = ?R `` {a}"
    by blast
qed

text \<open>
  After the rule has been evaluated, on one snapshot with a symmetric neighbour
  test, for every layer other than \<open>E\<close>, in any order and any number of times,
  the state agrees with the snapshot.
\<close>

lemma run_refreshes:
  fixes T :: "('f, 'b) Turf"
  assumes dist: "distinct (map leaflet_id layerGroup)"
    and supp: "\<forall>l \<in> set layerGroup. toGeoJSON l \<noteq> OtherGeoJSON"
    and sym: "\<forall>a \<in> set layerGroup. \<forall>b \<in> set layerGroup. naive_edge T a b \<longleftrightarrow> naive_edge T b a"
  shows "entity_layer ` set entities \<subseteq> set layerGroup \<Longrightarrow> state_inv st \<Longrightarrow>
     cache_agrees T layerGroup (areaCache st) \<Longrightarrow>
     \<forall>a \<in> S. nbrs (layersGraph st) a = naive_edges T layerGroup `` {a} \<Longrightarrow>
     S \<subseteq> leaflet_id ` set layerGroup \<Longrightarrow>
     state_inv (run T (map (Pair layerGroup) entities) st)
     \<and> cache_agrees T layerGroup (areaCache (run T (map (Pair layerGroup) entities) st))
     \<and> (\<forall>a \<in> S \<union> (leaflet_id \<circ> entity_layer) ` set entities.
          nbrs (layersGraph (run T (map (Pair layerGroup) entities) st)) a =
            naive_edges T layerGroup `` {a})"
proof (induction entities arbitrary: st S)
  case Nil
  then show ?case
    by simp
next
  case (Cons entity entities)
  let ?st' = "snd (fastOverlap_totalArea T layerGroup entity st)"
  let ?S' = "insert (leaflet_id (entity_layer entity)) S"
  from Cons.prems(1) have live: "entity_layer entity \<in> set layerGroup"
    and rest: "entity_layer ` set entities \<subseteq> set layerGroup"
    by auto
  have 1: "state_inv ?st'"
    by (rule fastOverlap_totalArea_state_inv [OF Cons.prems(2)])
  note 2 = evaluation_refreshes [OF dist live supp sym Cons.prems(2,3,4,5)]
  have 3: "?S' \<subseteq> leaflet_id ` set layerGroup"
    using Cons.prems(5) live by auto
  have "S \<union> (leaflet_id \<circ> entity_layer) ` set (entity # entities) =
      ?S' \<union> (leaflet_id \<circ> entity_layer) ` set entities"
    by auto
  with Cons.IH [OF rest 1 2 3] show ?case
    by (simp add: snd_fastOverlap_callback)
qed

lemma evaluated_state_agrees:
  fixes T :: "('f, 'b) Turf"
  assumes dist: "distinct (map leaflet_id layerGroup)"
    and supp: "\<forall>l \<in> set layerGroup. toGeoJSON l \<noteq> OtherGeoJSON"
    and sym: "\<forall>a \<in> set layerGroup. \<forall>b \<in> set layerGroup. naive_edge T a b \<longleftrightarrow> naive_edge T b a"
    and ents: "entity_layer ` set entities \<subseteq> set layerGroup"
    and all: "\<forall>l \<in> set layerGroup. leaflet_id l \<noteq> E \<longrightarrow> l \<in> entity_layer ` set entities"
    and inv: "state_inv st"
    and agr: "cache_agrees T layerGroup (areaCache st)"
  shows "state_inv (run T (map (Pair layerGroup) entities) st)"
    and "cache_agrees T layerGroup (areaCache (run T (map (Pair layerGroup) entities) st))"
    and "graph_current T layerGroup E (layersGraph (run T (map (Pair layerGroup) entities) st))"
proof -
  let ?st' = "run T (map (Pair layerGroup) entities) st"
  from run_refreshes [OF dist supp sym ents inv agr, of "{}"] have
    r: "state_inv ?st'" "cache_agrees T layerGroup (areaCache ?st')"
    "\<forall>a \<in> (leaflet_id \<circ> entity_layer) ` set entities.
       nbrs (layersGraph ?st') a = naive_edges T layerGroup `` {a}"
    by simp_all
  from r(1) show "state_inv ?st'" .
  from r(2) show "cache_agrees T layerGroup (areaCache ?st')" .
  show "graph_current T layerGroup E (layersGraph ?st')"
    unfolding graph_current_def
  proof (intro ballI impI)
    fix l assume l: "l \<in> set layerGroup" "leaflet_id l \<noteq> E"
    with all have "leaflet_id l \<in> (leaflet_id \<circ> entity_layer) ` set entities"
      by auto
    with r(3) have "nbrs (layersGraph ?st') (leaflet_id l) = naive_edges T layerGroup `` {leaflet_id l}"
      by blast
    then show "nbrs (layersGraph ?st') (leaflet_id l) - {E} =
        {leaflet_id otherLayer | otherLayer. otherLayer \<in> set layerGroup \<and> naive_edge T l otherLayer} - {E}"
      unfolding naive_edges_Image [OF dist l(1)] by simp
  qed
qed

section \<open>The incremental rule against the naive rule\<close>

text \<open>
  Claim C1, as amended.  Take a snapshot of the layer group with distinct ids
  in which every geometry is a feature collection with at least one feature,
  an entity whose layer is in the group, and a persistent state that agrees
  with the snapshot: the state invariant holds (the graph is symmetric and
  closed), the neighbours recorded for every layer other than the evaluated
  one are the layers its own neighbour test finds, and the cached areas are
  the areas of the layers.  (By lemma \<open>current_graph_symmetric_overlap\<close> such a
  state exists only if the neighbour test is symmetric between the layers
  other than the evaluated one; by lemma \<open>evaluated_state_agrees\<close>, when the
  test is symmetric, it is the state after the rule has been evaluated on the
  snapshot for every other layer.)  Then the incremental rule returns a total,
  and this total and the total of the naive rule both add up the areas of the
  same layers, those the naive rule has checked, each exactly once.  When
  addition is exact the two totals are equal and the two callbacks return the
  same result; in floating-point arithmetic the two rules add the areas in
  different orders and the totals may differ in the last digits.
\<close>

theorem incremental_agrees_with_naive:
  fixes T :: "('f, 'b) Turf"
  assumes "distinct (map leaflet_id layerGroup)"
    and "entity_layer entity \<in> set layerGroup"
    and "\<forall>l \<in> set layerGroup. \<exists>f fs. toGeoJSON l = FeatureCollection (f # fs)"
    and "state_inv st"
    and "cache_agrees T layerGroup (areaCache st)"
    and "graph_current T layerGroup (leaflet_id (entity_layer entity)) (layersGraph st)"
  shows "\<exists>ti tn checked.
       fst (fastOverlap_totalArea T layerGroup entity st) = Inr ti
     \<and> getTotalAreaOfOverlappingEntities T (entity_layer entity) layerGroup [] = (tn, checked)
     \<and> distinct checked
     \<and> adds_up (js_plus T) (image_mset (layerArea T layerGroup) (mset checked)) ti
     \<and> adds_up (js_plus T) (image_mset (layerArea T layerGroup) (mset checked)) tn
     \<and> (js_plus T = (+) \<longrightarrow>
          ti = tn
          \<and> fst (fastOverlap_callback T layerGroup entity st) =
            fst (isBufferOverlappingRecursive_callback T layerGroup entity st))"
proof -
  let ?A = "\<lambda>xs. image_mset (layerArea T layerGroup) (mset xs)"
  have supp: "\<forall>l \<in> set layerGroup. toGeoJSON l \<noteq> OtherGeoJSON"
    using assms(3) by auto
  from naive_cluster [OF assms(1,2), of T] obtain tn checked where
    n: "getTotalAreaOfOverlappingEntities T (entity_layer entity) layerGroup [] = (tn, checked)"
    and dn: "distinct checked"
    and sn: "set checked = (naive_edges T layerGroup)\<^sup>* `` {leaflet_id (entity_layer entity)}"
    and an: "adds_up (js_plus T) (?A checked) tn"
    by blast
  from incremental_total [OF assms(1,2) supp assms(4,5,6)] obtain ti checked' where
    i: "fst (fastOverlap_totalArea T layerGroup entity st) = Inr ti"
    and di: "distinct checked'"
    and si: "set checked' = (naive_edges T layerGroup)\<^sup>* `` {leaflet_id (entity_layer entity)}"
    and ai': "adds_up (js_plus T) (?A checked') ti"
    by blast
  from sn si have "mset checked' = mset checked"
    using set_eq_iff_mset_eq_distinct [OF di dn] by simp
  with ai' have ai: "adds_up (js_plus T) (?A checked) ti"
    by simp
  have ex: "ti = tn
      \<and> fst (fastOverlap_callback T layerGroup entity st) =
        fst (isBufferOverlappingRecursive_callback T layerGroup entity st)"
    if p: "js_plus T = (+)"
  proof -
    from adds_up_exact [OF ai [unfolded p]] adds_up_exact [OF an [unfolded p]]
    have e: "ti = tn"
      by simp
    with i n have "fst (fastOverlap_callback T layerGroup entity st) =
        fst (isBufferOverlappingRecursive_callback T layerGroup entity st)"
      by (cases "fastOverlap_totalArea T layerGroup entity st")
        (simp add: fastOverlap_callback_def isBufferOverlappingRecursive_callback_def)
    with e show ?thesis
      by simp
  qed
  from i n dn ai an ex show ?thesis
    by blast
qed

theorem incremental_agrees_with_naive_witness:
  "fst (fastOverlap_totalArea T_example [L_example 1, L_example 2, L_example 3]
          \<lparr>entity_layer = L_example 3\<rparr>
          (run T_example [([L_example 1, L_example 2, L_example 3], \<lparr>entity_layer = L_example 1\<rparr>),
                          ([L_example 1, L_example 2, L_example 3], \<lparr>entity_layer = L_example 2\<rparr>)]
             initial_state)) = Inr 1400
   \<and> fst (getTotalAreaOfOverlappingEntities T_example (L_example 3)
            [L_example 1, L_example 2, L_example 3] []) = 1400"
proof -
  let ?lg = "[L_example 1, L_example 2, L_example 3]"
  let ?e = "\<lparr>entity_layer = L_example 3\<rparr>"
  let ?st = "run T_example [(?lg, \<lparr>entity_layer = L_example 1\<rparr>), (?lg, \<lparr>entity_layer = L_example 2\<rparr>)]
     initial_state"
  have h1: "distinct (map leaflet_id ?lg)"
    by (simp add: L_example_def)
  have h2: "entity_layer ?e \<in> set ?lg"
    by simp
  have h3: "\<forall>l \<in> set ?lg. \<exists>f fs. toGeoJSON l = FeatureCollection (f # fs)"
    by (simp add: L_example_def)
  have h4: "state_inv ?st"
    by (rule run_state_inv [OF initial_state_inv])
  have c: "areaCache ?st 1 = Some 700" "areaCache ?st 2 = Some 600" "areaCache ?st 3 = Some 100"
    by code_simp+
  have h5: "cache_agrees T_example ?lg (areaCache ?st)"
    unfolding cache_agrees_def using c by (simp add: L_example_def T_example_def)
  have g: "layersGraph ?st = [(1, [2]), (2, [1, 3]), (3, [2])]"
    by code_simp
  have e12: "naive_edge T_example (L_example i) (L_example j) \<longleftrightarrow> i = Suc j \<or> j = Suc i" for i j
    by (auto simp: naive_edge_def compareLayers_def otherLayerPolygon_naive_def L_example_def T_example_def)
  have img: "{leaflet_id otherLayer | otherLayer. otherLayer \<in> set ?lg \<and> naive_edge T_example l otherLayer}
      = leaflet_id ` set (filter (naive_edge T_example l) ?lg)" for l
    by auto
  have lid: "leaflet_id (L_example k) = k" for k
    by (simp add: L_example_def)
  have h6: "graph_current T_example ?lg (leaflet_id (entity_layer ?e)) (layersGraph ?st)"
    unfolding graph_current_def g img
    by (simp add: nbrs_def e12 lid insert_commute)
  have ex: "js_plus T_example = (+)"
    by (simp add: T_example_def)
  have n: "fst (getTotalAreaOfOverlappingEntities T_example (L_example 3) ?lg []) = 1400"
    by code_simp
  from incremental_agrees_with_naive [OF h1 h2 h3 h4 h5 h6] obtain ti tn checked where
    "fst (fastOverlap_totalArea T_example ?lg ?e ?st) = Inr ti"
    "getTotalAreaOfOverlappingEntities T_example (entity_layer ?e) ?lg [] = (tn, checked)"
    "js_plus T_example = (+) \<longrightarrow> ti = tn"
    by blast
  with ex n show ?thesis
    by simp
qed

text \<open>
  Claim C1 as stated fails, for three reasons; layers 1, 2 and 3 lie in a
  row, 1 next to 2 and 2 next to 3.

  \<^item> The graph is stale.  From the initial state the evaluation of layer 3
    records only the edge between 2 and 3 (the neighbours of layer 2 have not
    been computed), so the incremental total is 700 and the rule is not
    triggered; the naive total is 1400 and the naive rule is triggered.

  \<^item> The overlap test is not symmetric (\<open>T_asym\<close>).  After the rule has been
    evaluated for each of the three layers, the graph, which is kept
    symmetric, has the edges between 1 and 2 and between 1 and 3; evaluated
    for layer 3 again, the incremental rule finds the three layers and the
    total 1400, the naive rule only the layers 3 and 1 and the total 800.

  \<^item> Addition rounds (\<open>T_double\<close>).  The state after the evaluations of the
    layers 3 and 1 agrees with the snapshot.  Evaluated for layer 2, the
    incremental rule adds the areas in the order 2, 3, 1 of the recorded
    neighbour set and finds 1250, which does not trigger the rule; the naive
    rule adds them in the order 2, 1, 3 of the layer group and finds the next
    double above 1250, which does.
\<close>

theorem incremental_differs_from_naive_counterexample:
  "(fst (fastOverlap_totalArea T_example [L_example 1, L_example 2, L_example 3]
          \<lparr>entity_layer = L_example 3\<rparr> initial_state) = Inr 700
    \<and> fst (getTotalAreaOfOverlappingEntities T_example (L_example 3)
            [L_example 1, L_example 2, L_example 3] []) = 1400
    \<and> fst (fastOverlap_callback T_example [L_example 1, L_example 2, L_example 3]
          \<lparr>entity_layer = L_example 3\<rparr> initial_state)
        = Inr \<lparr>triggered = False, shortMessage = None, message = None\<rparr>
    \<and> fst (isBufferOverlappingRecursive_callback T_example [L_example 1, L_example 2, L_example 3]
          \<lparr>entity_layer = L_example 3\<rparr> initial_state)
        = Inr \<lparr>triggered = True, shortMessage = Some (''Cluster too big: 1400m'' @ [CHR 0xB2]),
               message = None\<rparr>)
   \<and> (layersGraph (run T_asym
          [([L_example 1, L_example 2, L_example 3], \<lparr>entity_layer = L_example 1\<rparr>),
           ([L_example 1, L_example 2, L_example 3], \<lparr>entity_layer = L_example 2\<rparr>),
           ([L_example 1, L_example 2, L_example 3], \<lparr>entity_layer = L_example 3\<rparr>)]
          initial_state) = [(1, [2, 3]), (2, [1]), (3, [1])]
    \<and> fst (fastOverlap_totalArea T_asym [L_example 1, L_example 2, L_example 3]
          \<lparr>entity_layer = L_example 3\<rparr>
          (run T_asym
            [([L_example 1, L_example 2, L_example 3], \<lparr>entity_layer = L_example 1\<rparr>),
             ([L_example 1, L_example 2, L_example 3], \<lparr>entity_layer = L_example 2\<rparr>),
             ([L_example 1, L_example 2, L_example 3], \<lparr>entity_layer = L_example 3\<rparr>)]
            initial_state)) = Inr 1400
    \<and> fst (getTotalAreaOfOverlappingEntities T_asym (L_example 3)
            [L_example 1, L_example 2, L_example 3] []) = 800)
   \<and> (state_inv (run T_double
          [([L_example 1, L_example 2, L_example 3], \<lparr>entity_layer = L_example 3\<rparr>),
           ([L_example 1, L_example 2, L_example 3], \<lparr>entity_layer = L_example 1\<rparr>)]
          initial_state)
    \<and> cache_agrees T_double [L_example 1, L_example 2, L_example 3]
        (areaCache (run T_double
          [([L_example 1, L_example 2, L_example 3], \<lparr>entity_layer = L_example 3\<rparr>),
           ([L_example 1, L_example 2, L_example 3], \<lparr>entity_layer = L_example 1\<rparr>)]
          initial_state))
    \<and> graph_current T_double [L_example 1, L_example 2, L_example 3] 2
        (layersGraph (run T_double
          [([L_example 1, L_example 2, L_example 3], \<lparr>entity_layer = L_example 3\<rparr>),
           ([L_example 1, L_example 2, L_example 3], \<lparr>entity_layer = L_example 1\<rparr>)]
          initial_state))
    \<and> fst (fastOverlap_totalArea T_double [L_example 1, L_example 2, L_example 3]
          \<lparr>entity_layer = L_example 2\<rparr>
          (run T_double
            [([L_example 1, L_example 2, L_example 3], \<lparr>entity_layer = L_example 3\<rparr>),
             ([L_example 1, L_example 2, L_example 3], \<lparr>entity_layer = L_example 1\<rparr>)]
            initial_state)) = Inr 1250
    \<and> fst (getTotalAreaOfOverlappingEntities T_double (L_example 2)
            [L_example 1, L_example 2, L_example 3] []) = 5497558138880001 / 4398046511104
    \<and> fst (fastOverlap_callback T_double [L_example 1, L_example 2, L_example 3]
          \<lparr>entity_layer = L_example 2\<rparr>
          (run T_double
            [([L_example 1, L_example 2, L_example 3], \<lparr>entity_layer = L_example 3\<rparr>),
             ([L_example 1, L_example 2, L_example 3], \<lparr>entity_layer = L_example 1\<rparr>)]
            initial_state))
        = Inr \<lparr>triggered = False, shortMessage = None, message = None\<rparr>
    \<and> fst (isBufferOverlappingRecursive_callback T_double [L_example 1, L_example 2, L_example 3]
          \<lparr>entity_layer = L_example 2\<rparr> initial_state)
        = Inr \<lparr>triggered = True, shortMessage = Some (''Cluster too big: 1250m'' @ [CHR 0xB2]),
               message = None\<rparr>)"
proof -
  let ?lg = "[L_example 1, L_example 2, L_example 3]"
  let ?sa = "run T_asym [(?lg, \<lparr>entity_layer = L_example 1\<rparr>), (?lg, \<lparr>entity_layer = L_example 2\<rparr>),
     (?lg, \<lparr>entity_layer = L_example 3\<rparr>)] initial_state"
  let ?sd = "run T_double [(?lg, \<lparr>entity_layer = L_example 3\<rparr>), (?lg, \<lparr>entity_layer = L_example 1\<rparr>)]
     initial_state"
  have stale: "fst (fastOverlap_totalArea T_example ?lg \<lparr>entity_layer = L_example 3\<rparr> initial_state) = Inr 700
    \<and> fst (getTotalAreaOfOverlappingEntities T_example (L_example 3) ?lg []) = 1400
    \<and> fst (fastOverlap_callback T_example ?lg \<lparr>entity_layer = L_example 3\<rparr> initial_state)
        = Inr \<lparr>triggered = False, shortMessage = None, message = None\<rparr>
    \<and> fst (isBufferOverlappingRecursive_callback T_example ?lg \<lparr>entity_layer = L_example 3\<rparr> initial_state)
        = Inr \<lparr>triggered = True, shortMessage = Some (''Cluster too big: 1400m'' @ [CHR 0xB2]),
               message = None\<rparr>"
    by code_simp
  have asym: "layersGraph ?sa = [(1, [2, 3]), (2, [1]), (3, [1])]
    \<and> fst (fastOverlap_totalArea T_asym ?lg \<lparr>entity_layer = L_example 3\<rparr> ?sa) = Inr 1400
    \<and> fst (getTotalAreaOfOverlappingEntities T_asym (L_example 3) ?lg []) = 800"
    by code_simp
  have d1: "state_inv ?sd"
    by (rule run_state_inv [OF initial_state_inv])
  have c: "areaCache ?sd 1 = Some (turf_area T_double (toGeoJSON (L_example 1)))"
    "areaCache ?sd 2 = Some (turf_area T_double (toGeoJSON (L_example 2)))"
    "areaCache ?sd 3 = Some (turf_area T_double (toGeoJSON (L_example 3)))"
    by code_simp+
  have lid: "leaflet_id (L_example k) = k" for k
    by (simp add: L_example_def)
  have d2: "cache_agrees T_double ?lg (areaCache ?sd)"
    unfolding cache_agrees_def using c by (simp add: lid)
  have g: "layersGraph ?sd = [(3, [2]), (2, [3, 1]), (1, [2])]"
    by code_simp
  have e12: "naive_edge T_double (L_example i) (L_example j) \<longleftrightarrow> i = Suc j \<or> j = Suc i" for i j
    by (auto simp: naive_edge_def compareLayers_def otherLayerPolygon_naive_def L_example_def
        T_double_def T_example_def)
  have img: "{leaflet_id otherLayer | otherLayer. otherLayer \<in> set ?lg \<and> naive_edge T_double l otherLayer}
      = leaflet_id ` set (filter (naive_edge T_double l) ?lg)" for l
    by auto
  have d3: "graph_current T_double ?lg 2 (layersGraph ?sd)"
    unfolding graph_current_def g img
    by (simp add: nbrs_def e12 lid insert_commute)
  have d4: "fst (fastOverlap_totalArea T_double ?lg \<lparr>entity_layer = L_example 2\<rparr> ?sd) = Inr 1250"
    by code_simp
  have d5: "fst (getTotalAreaOfOverlappingEntities T_double (L_example 2) ?lg []) =
      5497558138880001 / 4398046511104"
    by code_simp
  have d6: "fst (fastOverlap_callback T_double ?lg \<lparr>entity_layer = L_example 2\<rparr> ?sd)
        = Inr \<lparr>triggered = False, shortMessage = None, message = None\<rparr>"
    by code_simp
  have d7: "fst (isBufferOverlappingRecursive_callback T_double ?lg \<lparr>entity_layer = L_example 2\<rparr> initial_state)
        = Inr \<lparr>triggered = True, shortMessage = Some (''Cluster too big: 1250m'' @ [CHR 0xB2]),
               message = None\<rparr>"
    by code_simp
  from stale asym d1 d2 d3 d4 d5 d6 d7 show ?thesis
    by (intro conjI) (elim conjE, assumption)+
qed

end
